theory Spec2Isabelle
  imports Complex_Main
begin

section \<open>Data model of \<open>gmapswrapper.py\<close>\<close>

text \<open>
  The wrapper keeps one pickled dictionary on disk:
  \<^verbatim>\<open>{'_version': 1, '_requests': {'geocoding': [...]}, 'geocoding': {...}}\<close>.
  The three top-level keys are never deleted by any code path, so the dictionary is a
  record. The inner dictionary \<open>_requests\<close> and the result dictionary \<open>geocoding\<close> are
  maps, because \<open>remove_item_from_cache\<close> deletes keys from either of them.
  A cached value is a list of match records \<open>'r\<close>; a timestamp has type \<open>'t\<close>.
\<close>

record ('r, 't) cache =
  version :: int
  requests :: "string \<rightharpoonup> 't list"
  geocoding :: "string \<rightharpoonup> 'r list"

text \<open>
  The cache file either unpickles to a cache or cannot be read back.
\<close>

datatype ('r, 't) pickle = Pickled "('r, 't) cache" | Corrupt

text \<open>
  The provider call \<open>self.gmaps.geocode(addr)\<close> returns a list of matches or raises.
  The handler \<open>except Exception\<close> tells three exception types of \<open>googlemaps\<close> from every
  other subclass of \<open>Exception\<close>.
\<close>

datatype exc = HTTPError | TransportError | Timeout | OtherException

datatype 'r outcome = Returned "'r list" | Raised exc

text \<open>Exceptions that leave a method of the wrapper.\<close>

datatype error = ValueError | UnpicklingError | IOError | KeyError | TypeError

text \<open>
  The collaborators of the wrapper. The provider answers an address depending on the
  addresses it was asked before (any deterministic stateful service is such a function);
  the clock answers its \<open>k\<close>-th reading; \<open>open_wb k\<close> tells whether the \<open>k\<close>-th attempt to
  open the cache file for writing succeeds.
\<close>

record ('r, 't) env =
  gmaps_geocode :: "string list \<Rightarrow> string \<Rightarrow> 'r outcome"
  datetime_now :: "nat \<Rightarrow> 't"
  open_wb :: "nat \<Rightarrow> bool"

text \<open>
  Everything outside the Python process that the wrapper reads or changes: the cache
  file (\<open>None\<close> when \<open>os.path.isfile\<close> is false), the addresses sent to the provider so far,
  the number of clock readings, the number of attempts to open the file for writing, and
  the snapshots that were dumped to the file, oldest first.
\<close>

record ('r, 't) world =
  cachefile :: "('r, 't) pickle option"
  api_calls :: "string list"
  clock_reads :: nat
  write_attempts :: nat
  writes :: "('r, 't) cache list"

text \<open>
  The argument of \<open>geocode\<close>. \<open>type(addresses) not in (list, tuple, set)\<close> accepts exactly
  the first three shapes; a set is given by its elements in iteration order. A single
  string and any other object are rejected.
\<close>

datatype pyarg =
  PyList "string list" | PyTuple "string list" | PySet "string list" | PyStr string | PyOther

text \<open>The local variables of the loop in \<open>geocode\<close>.\<close>

record ('r, 't) loop_state =
  cache :: "('r, 't) cache"
  geocoded_addresses :: "string \<rightharpoonup> 'r list option"
  fetched_res_since_last_cachewrite :: bool

section \<open>The cache store\<close>

definition AUTSAVE_CACHE_EVERY_NTH_REQUEST :: nat where
  "AUTSAVE_CACHE_EVERY_NTH_REQUEST = 10"

definition new_cache :: "('r, 't) cache" where
  "new_cache = \<lparr>version = 1, requests = [''geocoding'' \<mapsto> []], geocoding = Map.empty\<rparr>"

definition load_cache :: "('r, 't) world \<Rightarrow> error + ('r, 't) cache" where
  "load_cache w =
     (case cachefile w of
        Some (Pickled c) \<Rightarrow> Inr c
      | Some Corrupt \<Rightarrow> Inl UnpicklingError
      | None \<Rightarrow> Inr new_cache)"

definition write_cache ::
  "('r, 't) env \<Rightarrow> ('r, 't) cache \<Rightarrow> ('r, 't) world \<Rightarrow> (error + unit) \<times> ('r, 't) world" where
  "write_cache e c w =
     (if open_wb e (write_attempts w)
      then (Inr (), w\<lparr>cachefile := Some (Pickled c),
                      write_attempts := Suc (write_attempts w),
                      writes := writes w @ [c]\<rparr>)
      else (Inl IOError, w\<lparr>write_attempts := Suc (write_attempts w)\<rparr>))"

definition clean_cache :: "('r, 't) world \<Rightarrow> ('r, 't) world" where
  "clean_cache w = (if cachefile w \<noteq> None then w\<lparr>cachefile := None\<rparr> else w)"

text \<open>
  \<open>cache[section]\<close> is the result dictionary for \<open>'geocoding'\<close>, the request dictionary
  for \<open>'_requests'\<close>, the integer 1 for \<open>'_version'\<close> (where \<open>in\<close> raises \<open>TypeError\<close>) and a
  \<open>KeyError\<close> for every other section name.
\<close>

definition remove_item_from_cache ::
  "('r, 't) env \<Rightarrow> string \<Rightarrow> string \<Rightarrow> ('r, 't) world \<Rightarrow> (error + unit) \<times> ('r, 't) world" where
  "remove_item_from_cache e item_id section w =
     (case load_cache w of
        Inl err \<Rightarrow> (Inl err, w)
      | Inr c \<Rightarrow>
          if section = ''geocoding'' then
            write_cache e
              (if item_id \<in> dom (geocoding c)
               then c\<lparr>geocoding := (geocoding c)(item_id := None)\<rparr> else c) w
          else if section = ''_requests'' then
            write_cache e
              (if item_id \<in> dom (requests c)
               then c\<lparr>requests := (requests c)(item_id := None)\<rparr> else c) w
          else if section = ''_version'' then (Inl TypeError, w)
          else (Inl KeyError, w))"

section \<open>The batch resolver\<close>

fun accepted :: "pyarg \<Rightarrow> string list option" where
  "accepted (PyList xs) = Some xs"
| "accepted (PyTuple xs) = Some xs"
| "accepted (PySet xs) = Some xs"
| "accepted (PyStr s) = None"
| "accepted PyOther = None"

text \<open>Python's truth value of \<open>geocode_results\<close>: \<open>None\<close> and the empty list are false.\<close>

fun truthy :: "'r list option \<Rightarrow> bool" where
  "truthy None = False"
| "truthy (Some []) = False"
| "truthy (Some (x # xs)) = True"

text \<open>
  The \<open>else\<close> branch of the loop body (no cache hit). The subscript
  \<open>cache['_requests']['geocoding']\<close> is evaluated inside the \<open>try\<close> and before the clock
  is read: when the key is missing, the \<open>KeyError\<close> is caught by \<open>except Exception\<close>, the
  provider is not called and the result is \<open>None\<close>. \<open>geocoding_cache\<close> is an alias of
  \<open>cache['geocoding']\<close>, so the assignment to it changes the cache itself.
\<close>

definition fetch ::
  "('r, 't) env \<Rightarrow> string \<Rightarrow> ('r, 't) cache \<Rightarrow> ('r, 't) world
     \<Rightarrow> 'r list option \<times> ('r, 't) cache \<times> ('r, 't) world" where
  "fetch e addr c w =
     (let (geocode_results, c1, w1) =
            (case requests c ''geocoding'' of
               None \<Rightarrow> (None, c, w)
             | Some stamps \<Rightarrow>
                 let c1 = c\<lparr>requests :=
                            (requests c)(''geocoding'' \<mapsto> stamps @ [datetime_now e (clock_reads w)])\<rparr>;
                     w1 = w\<lparr>clock_reads := Suc (clock_reads w)\<rparr>;
                     w2 = w1\<lparr>api_calls := api_calls w1 @ [addr]\<rparr>
                 in (case gmaps_geocode e (api_calls w1) addr of
                       Returned r \<Rightarrow> (Some r, c1, w2)
                     | Raised x \<Rightarrow> (None, c1, w2)))
      in if truthy geocode_results
         then (geocode_results, c1\<lparr>geocoding := (geocoding c1)(addr \<mapsto> the geocode_results)\<rparr>, w1)
         else (geocode_results, c1, w1))"

text \<open>
  The end of the loop body: the cache is written after every tenth address and after
  the last one, if a result was requested since the last write. \<open>cache['geocoding'] =
  geocoding_cache\<close> assigns the dictionary to the key that already holds it. An
  \<open>IOError\<close> of the write leaves the method; the world keeps what was done before.
\<close>

definition checkpoint ::
  "('r, 't) env \<Rightarrow> nat \<Rightarrow> nat \<Rightarrow> ('r, 't) loop_state \<Rightarrow> ('r, 't) world
     \<Rightarrow> (error + ('r, 't) loop_state) \<times> ('r, 't) world" where
  "checkpoint e n i st w =
     (if ((i + 1) mod AUTSAVE_CACHE_EVERY_NTH_REQUEST = 0 \<or> int i = int n - 1)
         \<and> fetched_res_since_last_cachewrite st
      then (case write_cache e (cache st) w of
              (Inl err, w') \<Rightarrow> (Inl err, w')
            | (Inr u, w') \<Rightarrow> (Inr (st\<lparr>fetched_res_since_last_cachewrite := False\<rparr>), w'))
      else (Inr st, w))"

text \<open>
  One iteration of \<open>for i, addr in enumerate(addresses)\<close>, with \<open>n = len(addresses)\<close>.
\<close>

definition geocode_step ::
  "('r, 't) env \<Rightarrow> nat \<Rightarrow> nat \<Rightarrow> string \<Rightarrow> ('r, 't) loop_state \<Rightarrow> ('r, 't) world
     \<Rightarrow> (error + ('r, 't) loop_state) \<times> ('r, 't) world" where
  "geocode_step e n i addr st w =
     (let (geocode_results, st1, w1) =
            (case geocoding (cache st) addr of
               Some r \<Rightarrow> (Some r, st, w)
             | None \<Rightarrow>
                 (case fetch e addr (cache st) w of
                    (res, c', w') \<Rightarrow>
                      (res, st\<lparr>cache := c', fetched_res_since_last_cachewrite := True\<rparr>, w')))
      in checkpoint e n i
           (st1\<lparr>geocoded_addresses := (geocoded_addresses st1)(addr \<mapsto> geocode_results)\<rparr>) w1)"

fun geocode_loop ::
  "('r, 't) env \<Rightarrow> nat \<Rightarrow> nat \<Rightarrow> string list \<Rightarrow> ('r, 't) loop_state \<Rightarrow> ('r, 't) world
     \<Rightarrow> (error + ('r, 't) loop_state) \<times> ('r, 't) world" where
  "geocode_loop e n i [] st w = (Inr st, w)"
| "geocode_loop e n i (addr # rest) st w =
     (case geocode_step e n i addr st w of
        (Inl err, w') \<Rightarrow> (Inl err, w')
      | (Inr st', w') \<Rightarrow> geocode_loop e n (Suc i) rest st' w')"

definition initial_state :: "('r, 't) cache \<Rightarrow> ('r, 't) loop_state" where
  "initial_state c =
     \<lparr>cache = c, geocoded_addresses = Map.empty, fetched_res_since_last_cachewrite = False\<rparr>"

text \<open>
  The method after the type check has passed, stopped after the first \<open>j\<close> iterations of
  its loop: the cache is loaded and the first \<open>j\<close> addresses are processed, with
  \<open>len(addresses)\<close> the length of the whole batch.
\<close>

definition geocode_upto ::
  "('r, 't) env \<Rightarrow> string list \<Rightarrow> nat \<Rightarrow> ('r, 't) world
     \<Rightarrow> (error + ('r, 't) loop_state) \<times> ('r, 't) world" where
  "geocode_upto e addrs j w =
     (case load_cache w of
        Inl err \<Rightarrow> (Inl err, w)
      | Inr c \<Rightarrow> geocode_loop e (length addrs) 0 (take j addrs) (initial_state c) w)"

definition geocode ::
  "('r, 't) env \<Rightarrow> pyarg \<Rightarrow> ('r, 't) world
     \<Rightarrow> (error + (string \<rightharpoonup> 'r list option)) \<times> ('r, 't) world" where
  "geocode e addresses w =
     (case accepted addresses of
        None \<Rightarrow> (Inl ValueError, w)
      | Some addrs \<Rightarrow>
          (case geocode_upto e addrs (length addrs) w of
             (Inl err, w') \<Rightarrow> (Inl err, w')
           | (Inr st, w') \<Rightarrow> (Inr (geocoded_addresses st), w')))"

text \<open>
  A caller that invokes \<open>geocode\<close> once for each argument of a list, whatever each call
  returns or raises; only the world carries over from one call to the next.
\<close>

fun geocode_all :: "('r, 't) env \<Rightarrow> pyarg list \<Rightarrow> ('r, 't) world \<Rightarrow> ('r, 't) world" where
  "geocode_all e [] w = w"
| "geocode_all e (b # bs) w = geocode_all e bs (snd (geocode e b w))"

section \<open>Fixtures for concrete runs\<close>

text \<open>A world with no cache file and no history.\<close>

definition fresh_world :: "(string, nat) world" where
  "fresh_world = \<lparr>cachefile = None, api_calls = [], clock_reads = 0, write_attempts = 0, writes = []\<rparr>"


text \<open>
  Three providers: one that finds a single match for every address, one that finds
  nothing, one that always times out. The clock counts its readings and the disk is
  always writable.
\<close>

definition env_found :: "(string, nat) env" where
  "env_found = \<lparr>gmaps_geocode = (\<lambda>h a. Returned [a]), datetime_now = (\<lambda>k. k), open_wb = (\<lambda>k. True)\<rparr>"

definition env_empty :: "(string, nat) env" where
  "env_empty = \<lparr>gmaps_geocode = (\<lambda>h a. Returned []), datetime_now = (\<lambda>k. k), open_wb = (\<lambda>k. True)\<rparr>"

definition env_timeout :: "(string, nat) env" where
  "env_timeout = \<lparr>gmaps_geocode = (\<lambda>h a. Raised Timeout), datetime_now = (\<lambda>k. k), open_wb = (\<lambda>k. True)\<rparr>"

text \<open>A cache file that holds one result, and eleven addresses that are not in it.\<close>

definition berlin_cache :: "(string, nat) cache" where
  "berlin_cache = new_cache\<lparr>geocoding := [''Berlin'' \<mapsto> [''Berlin, Germany'']]\<rparr>"

definition berlin_world :: "(string, nat) world" where
  "berlin_world = fresh_world\<lparr>cachefile := Some (Pickled berlin_cache)\<rparr>"

definition eleven_addresses :: "string list" where
  "eleven_addresses = [''a'', ''b'', ''c'', ''d'', ''e'', ''f'', ''g'', ''h'', ''i'', ''j'', ''k'']"


section \<open>Predicates of the statements\<close>

text \<open>
  The output dictionary agrees with the cache: an address that has an output entry and
  a cached result has that result as its output.
\<close>

definition consistent :: "('r, 't) loop_state \<Rightarrow> bool" where
  "consistent st = (\<forall>b r. geocoding (cache st) b = Some r \<longrightarrow> b \<in> dom (geocoded_addresses st)
           \<longrightarrow> geocoded_addresses st b = Some (Some r))"

text \<open>The timestamps of the request log; none when the log is missing.\<close>

definition request_log :: "('r, 't) cache \<Rightarrow> 't list" where
  "request_log c = (case requests c ''geocoding'' of None \<Rightarrow> [] | Some stamps \<Rightarrow> stamps)"

text \<open>
  A cached result is justified by the provider calls made so far when it is a non-empty
  list that the provider returned for the same address at one of these calls.
\<close>

definition justified :: "('r, 't) env \<Rightarrow> string list \<Rightarrow> string \<Rightarrow> 'r list \<Rightarrow> bool" where
  "justified e calls a r =
     (r \<noteq> [] \<and> (\<exists>k<length calls. calls ! k = a \<and> gmaps_geocode e (take k calls) a = Returned r))"

text \<open>
  A cache is in order when its request log exists and all its results are justified; the
  store is in order when the cache file loads to such a cache.
\<close>

definition cache_ok :: "('r, 't) env \<Rightarrow> string list \<Rightarrow> ('r, 't) cache \<Rightarrow> bool" where
  "cache_ok e calls c =
     (requests c ''geocoding'' \<noteq> None \<and> (\<forall>a r. geocoding c a = Some r \<longrightarrow> justified e calls a r))"

definition store_ok :: "('r, 't) env \<Rightarrow> ('r, 't) world \<Rightarrow> bool" where
  "store_ok e w = (\<exists>c. load_cache w = Inr c \<and> cache_ok e (api_calls w) c)"

section \<open>Basic facts about the loop\<close>

lemma geocode_loop_append:
  "geocode_loop e n i (xs @ ys) st w =
     (case geocode_loop e n i xs st w of
        (Inl err, w') \<Rightarrow> (Inl err, w')
      | (Inr st', w') \<Rightarrow> geocode_loop e n (i + length xs) ys st' w')"
  by (induction xs arbitrary: i st w) (auto split: prod.splits sum.splits)

lemma geocode_upto_0:
  "load_cache w = Inr c \<Longrightarrow> geocode_upto e addrs 0 w = (Inr (initial_state c), w)"
  by (simp add: geocode_upto_def)

lemma geocode_upto_Suc:
  assumes "j < length addrs"
  shows "geocode_upto e addrs (Suc j) w =
           (case geocode_upto e addrs j w of
              (Inl err, w') \<Rightarrow> (Inl err, w')
            | (Inr st, w') \<Rightarrow> geocode_step e (length addrs) j (addrs ! j) st w')"
proof -
  have "take (Suc j) addrs = take j addrs @ [addrs ! j]"
    using assms by (simp add: take_Suc_conv_app_nth)
  moreover have "length (take j addrs) = j" using assms by simp
  ultimately show ?thesis
    by (auto simp add: geocode_upto_def geocode_loop_append split: sum.splits prod.splits)
qed

lemma geocode_upto_induct:
  assumes "m0 \<le> m" and "m \<le> length addrs"
    and base: "R m0 (geocode_upto e addrs m0 w)"
    and step: "\<And>i st w1. m0 \<le> i \<Longrightarrow> i < m \<Longrightarrow> geocode_upto e addrs i w = (Inr st, w1)
                 \<Longrightarrow> R i (Inr st, w1)
                 \<Longrightarrow> R (Suc i) (geocode_step e (length addrs) i (addrs ! i) st w1)"
    and err: "\<And>i err w1. m0 \<le> i \<Longrightarrow> i < m \<Longrightarrow> R i (Inl err, w1) \<Longrightarrow> R (Suc i) (Inl err, w1)"
  shows "R m (geocode_upto e addrs m w)"
  using assms(1,2) step err
proof (induction m)
  case 0
  then show ?case using base by simp
next
  case (Suc m)
  show ?case
  proof (cases "m0 = Suc m")
    case True
    then show ?thesis using base by simp
  next
    case False
    then have le: "m0 \<le> m" "m \<le> length addrs" "m < length addrs" "m < Suc m"
      using Suc.prems by auto
    have IH: "R m (geocode_upto e addrs m w)"
      using Suc.IH [OF le(1,2)] Suc.prems(3,4) by (meson less_Suc_eq)
    obtain res w1 where up: "geocode_upto e addrs m w = (res, w1)" by (cases "geocode_upto e addrs m w")
    show ?thesis
    proof (cases res)
      case (Inl err')
      then show ?thesis
        using IH up Suc.prems(4) [OF le(1) le(4)] by (simp add: geocode_upto_Suc [OF le(3)])
    next
      case (Inr st)
      then show ?thesis
        using IH up Suc.prems(3) [OF le(1) le(4)] by (simp add: geocode_upto_Suc [OF le(3)])
    qed
  qed
qed

lemma geocode_step_hit:
  "geocoding (cache st) addr = Some r \<Longrightarrow>
   geocode_step e n i addr st w =
     checkpoint e n i (st\<lparr>geocoded_addresses := (geocoded_addresses st)(addr \<mapsto> Some r)\<rparr>) w"
  by (simp add: geocode_step_def)

lemma geocode_step_miss:
  "geocoding (cache st) addr = None \<Longrightarrow>
   geocode_step e n i addr st w =
     (case fetch e addr (cache st) w of
        (res, c', w') \<Rightarrow>
          checkpoint e n i (st\<lparr>cache := c', fetched_res_since_last_cachewrite := True,
                                geocoded_addresses := (geocoded_addresses st)(addr \<mapsto> res)\<rparr>) w')"
  by (simp add: geocode_step_def split: prod.splits)

lemma checkpoint_unfold:
  "checkpoint e n i st w =
     (if (Suc i mod 10 = 0 \<or> Suc i = n) \<and> fetched_res_since_last_cachewrite st
      then if open_wb e (write_attempts w)
           then (Inr (st\<lparr>fetched_res_since_last_cachewrite := False\<rparr>),
                 w\<lparr>cachefile := Some (Pickled (cache st)),
                   write_attempts := Suc (write_attempts w),
                   writes := writes w @ [cache st]\<rparr>)
           else (Inl IOError, w\<lparr>write_attempts := Suc (write_attempts w)\<rparr>)
      else (Inr st, w))"
proof -
  have "((i + 1) mod AUTSAVE_CACHE_EVERY_NTH_REQUEST = 0 \<or> int i = int n - 1)
          = (Suc i mod 10 = 0 \<or> Suc i = n)"
    by (auto simp add: AUTSAVE_CACHE_EVERY_NTH_REQUEST_def)
  then show ?thesis
    by (simp add: checkpoint_def write_cache_def)
qed

lemma fetch_frame:
  assumes "fetch e a c w = (res, c', w')"
  shows "writes w' = writes w" and "write_attempts w' = write_attempts w"
    and "cachefile w' = cachefile w"
  using assms
  by (auto simp add: fetch_def Let_def split: option.splits outcome.splits if_splits)

lemma fetch_dom:
  assumes "fetch e a c w = (res, c', w')"
  shows "dom (geocoding c') \<subseteq> insert a (dom (geocoding c))"
  using assms
  by (auto simp add: fetch_def Let_def split: option.splits outcome.splits if_splits)

lemma checkpoint_cache:
  assumes "checkpoint e n i st w = (Inr st', w')"
  shows "cache st' = cache st" and "geocoded_addresses st' = geocoded_addresses st"
  using assms
  by (auto simp add: checkpoint_unfold split: if_splits)

lemma geocode_step_dom:
  assumes "geocode_step e n i a st w = (Inr st', w')"
  shows "dom (geocoding (cache st')) \<subseteq> insert a (dom (geocoding (cache st)))"
proof (cases "geocoding (cache st) a")
  case None
  obtain res c1 w1 where f: "fetch e a (cache st) w = (res, c1, w1)"
    by (cases "fetch e a (cache st) w") auto
  from assms None f have "cache st' = c1"
    by (auto simp add: geocode_step_miss dest: checkpoint_cache)
  then show ?thesis using fetch_dom [OF f] by simp
next
  case (Some r)
  with assms have "cache st' = cache st"
    by (auto simp add: geocode_step_hit dest: checkpoint_cache)
  then show ?thesis by auto
qed

lemma geocode_upto_dom:
  assumes "load_cache w = Inr c" and "j \<le> length addrs"
    and "geocode_upto e addrs j w = (Inr st, wj)"
  shows "dom (geocoding (cache st)) \<subseteq> dom (geocoding c) \<union> set (take j addrs)"
proof -
  let ?R = "\<lambda>j (p :: (error + ('a, 'b) loop_state) \<times> ('a, 'b) world).
              \<forall>st. fst p = Inr st \<longrightarrow>
                dom (geocoding (cache st)) \<subseteq> dom (geocoding c) \<union> set (take j addrs)"
  have "?R j (geocode_upto e addrs j w)"
  proof (rule geocode_upto_induct [where ?m0.0 = 0 and R = ?R])
    show "?R 0 (geocode_upto e addrs 0 w)"
      using assms(1) by (simp add: geocode_upto_0 initial_state_def)
  next
    fix i st w1
    assume i: "i < j" and ih: "?R i (Inr st, w1)"
    show "?R (Suc i) (geocode_step e (length addrs) i (addrs ! i) st w1)"
    proof (intro allI impI)
      fix st'
      assume "fst (geocode_step e (length addrs) i (addrs ! i) st w1) = Inr st'"
      then have "geocode_step e (length addrs) i (addrs ! i) st w1
                   = (Inr st', snd (geocode_step e (length addrs) i (addrs ! i) st w1))"
        by (metis prod.collapse)
      from geocode_step_dom [OF this] ih
      have "dom (geocoding (cache st')) \<subseteq> insert (addrs ! i) (dom (geocoding c) \<union> set (take i addrs))"
        by auto
      moreover have "take (Suc i) addrs = take i addrs @ [addrs ! i]"
        using i assms(2) by (simp add: take_Suc_conv_app_nth)
      ultimately show "dom (geocoding (cache st')) \<subseteq> dom (geocoding c) \<union> set (take (Suc i) addrs)"
        by auto
    qed
  qed (use assms(2) in auto)
  then show ?thesis using assms(3) by simp
qed

lemma fresh_addresses_miss:
  assumes "load_cache w = Inr c" and "distinct addrs" and "set addrs \<inter> dom (geocoding c) = {}"
    and "j < length addrs" and "geocode_upto e addrs j w = (Inr st, wj)"
  shows "geocoding (cache st) (addrs ! j) = None"
proof -
  have "addrs ! j \<notin> set (take j addrs)"
    using assms(2,4) by (auto simp add: in_set_conv_nth nth_eq_iff_index_eq)
  moreover have "addrs ! j \<notin> dom (geocoding c)"
    using assms(3,4) by (meson disjoint_iff nth_mem)
  ultimately show ?thesis
    using geocode_upto_dom [OF assms(1) _ assms(5)] assms(4) by (auto simp add: domIff)
qed

lemma geocode_step_miss_checkpoint:
  assumes "geocoding (cache st) a = None" and "open_wb e (write_attempts w)"
  shows "\<exists>st' w'. geocode_step e n i a st w = (Inr st', w')
           \<and> fetched_res_since_last_cachewrite st' = (\<not> (Suc i mod 10 = 0 \<or> Suc i = n))
           \<and> writes w' = (if Suc i mod 10 = 0 \<or> Suc i = n then writes w @ [cache st'] else writes w)
           \<and> write_attempts w' = (if Suc i mod 10 = 0 \<or> Suc i = n then Suc (write_attempts w) else write_attempts w)
           \<and> (Suc i mod 10 = 0 \<or> Suc i = n \<longrightarrow> cachefile w' = Some (Pickled (cache st')))"
proof -
  obtain res c1 w1 where f: "fetch e a (cache st) w = (res, c1, w1)"
    by (cases "fetch e a (cache st) w") auto
  show ?thesis
    using assms fetch_frame [OF f] f
    by (auto simp add: geocode_step_miss checkpoint_unfold)
qed


lemma truthy_iff: "truthy res = (\<exists>r. res = Some r \<and> r \<noteq> [])"
  by (cases res rule: truthy.cases) auto

lemma geocode_step_unfold:
  "geocode_step e n i a st w =
     (case geocoding (cache st) a of
        Some r \<Rightarrow>
          checkpoint e n i (st\<lparr>geocoded_addresses := (geocoded_addresses st)(a \<mapsto> Some r)\<rparr>) w
      | None \<Rightarrow>
          (case requests (cache st) ''geocoding'' of
             None \<Rightarrow>
               checkpoint e n i
                 (st\<lparr>fetched_res_since_last_cachewrite := True,
                     geocoded_addresses := (geocoded_addresses st)(a \<mapsto> None)\<rparr>) w
           | Some stamps \<Rightarrow>
               (case gmaps_geocode e (api_calls w) a of
                  Raised x \<Rightarrow>
                    checkpoint e n i
                      (st\<lparr>cache := (cache st)\<lparr>requests := (requests (cache st))
                                 (''geocoding'' \<mapsto> stamps @ [datetime_now e (clock_reads w)])\<rparr>,
                          fetched_res_since_last_cachewrite := True,
                          geocoded_addresses := (geocoded_addresses st)(a \<mapsto> None)\<rparr>)
                      (w\<lparr>clock_reads := Suc (clock_reads w), api_calls := api_calls w @ [a]\<rparr>)
                | Returned r \<Rightarrow>
                    checkpoint e n i
                      (st\<lparr>cache := (cache st)\<lparr>requests := (requests (cache st))
                                 (''geocoding'' \<mapsto> stamps @ [datetime_now e (clock_reads w)]),
                               geocoding := (if r = [] then geocoding (cache st)
                                             else (geocoding (cache st))(a \<mapsto> r))\<rparr>,
                          fetched_res_since_last_cachewrite := True,
                          geocoded_addresses := (geocoded_addresses st)(a \<mapsto> Some r)\<rparr>)
                      (w\<lparr>clock_reads := Suc (clock_reads w), api_calls := api_calls w @ [a]\<rparr>))))"
  by (auto simp add: geocode_step_def fetch_def Let_def truthy_iff
      split: option.splits outcome.splits)

lemma geocode_step_total:
  assumes "open_wb e (write_attempts w)"
  shows "\<exists>st' w'. geocode_step e n i a st w = (Inr st', w')"
  using assms
  by (auto simp add: geocode_step_unfold checkpoint_unfold split: option.splits outcome.splits)

lemma geocode_step_error:
  assumes "geocode_step e n i a st w = (Inl err, w')"
  shows "err = IOError \<and> \<not> open_wb e (write_attempts w)"
  using assms
  by (auto simp add: geocode_step_unfold checkpoint_unfold split: option.splits outcome.splits if_splits)

lemma geocode_step_out_dom:
  assumes "geocode_step e n i a st w = (Inr st', w')"
  shows "dom (geocoded_addresses st') = insert a (dom (geocoded_addresses st))"
  using assms
  by (auto simp add: geocode_step_unfold checkpoint_unfold split: option.splits outcome.splits if_splits)

lemma geocode_step_out_other:
  assumes "geocode_step e n i a st w = (Inr st', w')" and "b \<noteq> a"
  shows "geocoded_addresses st' b = geocoded_addresses st b"
  using assms
  by (auto simp add: geocode_step_unfold checkpoint_unfold split: option.splits outcome.splits if_splits)

lemma geocode_step_cache_mono:
  assumes "geocode_step e n i a st w = (Inr st', w')" and "geocoding (cache st) b = Some r"
  shows "geocoding (cache st') b = Some r"
  using assms
  by (auto simp add: geocode_step_unfold checkpoint_unfold split: option.splits outcome.splits if_splits)

lemma geocode_step_cache_other:
  assumes "geocode_step e n i a st w = (Inr st', w')" and "b \<noteq> a"
  shows "geocoding (cache st') b = geocoding (cache st) b"
  using assms
  by (auto simp add: geocode_step_unfold checkpoint_unfold split: option.splits outcome.splits if_splits)

lemma geocode_step_self:
  assumes "geocode_step e n i a st w = (Inr st', w')" and "geocoding (cache st') a = Some r"
  shows "geocoded_addresses st' a = Some (Some r)"
  using assms
  by (auto simp add: geocode_step_unfold checkpoint_unfold split: option.splits outcome.splits if_splits)

lemma geocode_step_consistent:
  assumes s: "geocode_step e n i a st w = (Inr st', w')" and c: "consistent st"
  shows "consistent st'"
  unfolding consistent_def
proof (intro allI impI)
  fix b r
  assume g: "geocoding (cache st') b = Some r" and d: "b \<in> dom (geocoded_addresses st')"
  show "geocoded_addresses st' b = Some (Some r)"
  proof (cases "b = a")
    case True
    then show ?thesis using geocode_step_self [OF s] g by simp
  next
    case False
    then have "geocoding (cache st) b = Some r" "b \<in> dom (geocoded_addresses st)"
      using geocode_step_cache_other [OF s False] geocode_step_out_other [OF s False] g d
      by (auto simp add: domIff)
    then have "geocoded_addresses st b = Some (Some r)"
      using c by (simp add: consistent_def)
    then show ?thesis using geocode_step_out_other [OF s False] by simp
  qed
qed


lemma geocode_upto_states:
  assumes le: "m0 \<le> m" "m \<le> length addrs"
    and start: "geocode_upto e addrs m0 w = (Inr st0, w0)"
    and stop: "geocode_upto e addrs m w = (Inr st, wm)"
    and base: "P m0 st0 w0"
    and step: "\<And>i s1 w1 s2 w2. m0 \<le> i \<Longrightarrow> i < m \<Longrightarrow> P i s1 w1
                 \<Longrightarrow> geocode_step e (length addrs) i (addrs ! i) s1 w1 = (Inr s2, w2)
                 \<Longrightarrow> P (Suc i) s2 w2"
  shows "P m st wm"
proof -
  let ?R = "\<lambda>j (p :: (error + ('a, 'b) loop_state) \<times> ('a, 'b) world).
              \<forall>s v. p = (Inr s, v) \<longrightarrow> P j s v"
  have "?R m (geocode_upto e addrs m w)"
  proof (rule geocode_upto_induct [where ?m0.0 = m0 and R = ?R])
    show "?R m0 (geocode_upto e addrs m0 w)" using start base by simp
  next
    fix i s1 w1
    assume "m0 \<le> i" "i < m" "?R i (Inr s1, w1)"
    then show "?R (Suc i) (geocode_step e (length addrs) i (addrs ! i) s1 w1)"
      using step by blast
  qed (use le in auto)
  then show ?thesis using stop by simp
qed

lemma geocode_upto_earlier:
  assumes "m0 \<le> m" and "m \<le> length addrs" and "geocode_upto e addrs m w = (Inr st, wm)"
  shows "\<exists>st0 w0. geocode_upto e addrs m0 w = (Inr st0, w0)"
  using assms
proof (induction m arbitrary: st wm)
  case 0
  then show ?case by simp
next
  case (Suc m)
  show ?case
  proof (cases "m0 = Suc m")
    case True
    then show ?thesis using Suc.prems by simp
  next
    case False
    then have le: "m0 \<le> m" "m \<le> length addrs" "m < length addrs" using Suc.prems by auto
    obtain s v where "geocode_upto e addrs m w = (Inr s, v)"
      using Suc.prems(3) geocode_upto_Suc [OF le(3), of e w]
      by (auto split: prod.splits sum.splits)
    then show ?thesis using Suc.IH [OF le(1,2)] by blast
  qed
qed

lemma geocode_upto_total:
  assumes "load_cache w = Inr c" and "\<forall>k. open_wb e k" and "j \<le> length addrs"
  shows "\<exists>st wj. geocode_upto e addrs j w = (Inr st, wj)"
  using assms(3)
proof (induction j)
  case 0
  then show ?case using assms(1) by (simp add: geocode_upto_0)
next
  case (Suc j)
  then obtain st wj where "geocode_upto e addrs j w = (Inr st, wj)" by auto
  moreover have "open_wb e (write_attempts wj)" using assms(2) by simp
  ultimately show ?case
    using Suc.prems geocode_step_total [of e wj "length addrs" j "addrs ! j" st]
    by (simp add: geocode_upto_Suc)
qed

lemma geocode_upto_out_dom:
  assumes "j \<le> length addrs" and "geocode_upto e addrs j w = (Inr st, wj)"
  shows "dom (geocoded_addresses st) = set (take j addrs)"
proof -
  obtain st0 w0 where z: "geocode_upto e addrs 0 w = (Inr st0, w0)"
    using geocode_upto_earlier [OF _ assms, of 0] by auto
  then have "geocoded_addresses st0 = Map.empty"
    by (auto simp add: geocode_upto_def initial_state_def split: sum.splits)
  then have b: "dom (geocoded_addresses st0) = set (take 0 addrs)" by simp
  show ?thesis
  proof (rule geocode_upto_states
      [where P = "\<lambda>j s v. dom (geocoded_addresses s) = set (take j addrs)", OF _ assms(1) z assms(2) b])
    fix i s1 w1 s2 w2
    assume "i < j" "dom (geocoded_addresses s1) = set (take i addrs)"
      "geocode_step e (length addrs) i (addrs ! i) s1 w1 = (Inr s2, w2)"
    then show "dom (geocoded_addresses s2) = set (take (Suc i) addrs)"
      using assms(1) geocode_step_out_dom [of e "length addrs" i "addrs ! i" s1 w1 s2 w2]
      by (simp add: take_Suc_conv_app_nth)
  qed simp
qed

lemma geocode_returns:
  assumes "accepted addresses = Some addrs" and "load_cache w = Inr c" and "\<forall>k. open_wb e k"
  shows "\<exists>out w'. geocode e addresses w = (Inr out, w') \<and> dom out = set addrs
           \<and> (addrs = [] \<longrightarrow> out = Map.empty \<and> w' = w)"
proof -
  obtain st w' where u: "geocode_upto e addrs (length addrs) w = (Inr st, w')"
    using geocode_upto_total [OF assms(2,3), of "length addrs" addrs] by auto
  have "dom (geocoded_addresses st) = set addrs"
    using geocode_upto_out_dom [OF _ u] by simp
  moreover have "addrs = [] \<longrightarrow> geocoded_addresses st = Map.empty \<and> w' = w"
    using u assms(2) by (auto simp add: geocode_upto_def initial_state_def)
  ultimately show ?thesis
    using u assms(1) by (simp add: geocode_def)
qed


section \<open>Rejected arguments\<close>



section \<open>Removing one cached entry\<close>

text \<open>
  Claim C9. When the cache file can be loaded and opened for writing,
  \<open>remove_item_from_cache\<close> with section \<open>'geocoding'\<close> writes the file exactly once, and the
  snapshot it writes is the loaded cache with the key deleted from the result dictionary:
  version, request log and every other result are those of the loaded cache, and the
  snapshot is the loaded cache itself when the key was absent.
\<close>

theorem remove_item_from_cache_geocoding:
  assumes "load_cache w = Inr c" and "open_wb e (write_attempts w)"
  shows "remove_item_from_cache e item_id ''geocoding'' w =
           (Inr (), w\<lparr>cachefile := Some (Pickled (c\<lparr>geocoding := (geocoding c)(item_id := None)\<rparr>)),
                      write_attempts := Suc (write_attempts w),
                      writes := writes w @ [c\<lparr>geocoding := (geocoding c)(item_id := None)\<rparr>]\<rparr>)
         \<and> (item_id \<notin> dom (geocoding c) \<longrightarrow> c\<lparr>geocoding := (geocoding c)(item_id := None)\<rparr> = c)"
proof -
  have same: "item_id \<notin> dom (geocoding c) \<Longrightarrow> c\<lparr>geocoding := (geocoding c)(item_id := None)\<rparr> = c"
    by (simp add: domIff fun_upd_idem)
  show ?thesis
    using assms same by (auto simp add: remove_item_from_cache_def write_cache_def)
qed

theorem remove_item_from_cache_geocoding_witness:
  "load_cache berlin_world = Inr berlin_cache
   \<and> open_wb env_found (write_attempts berlin_world)
   \<and> remove_item_from_cache env_found ''Berlin'' ''geocoding'' berlin_world =
         (Inr (), berlin_world\<lparr>cachefile := Some (Pickled new_cache),
                               write_attempts := 1, writes := [new_cache]\<rparr>)
   \<and> ''Paris'' \<notin> dom (geocoding berlin_cache)
   \<and> remove_item_from_cache env_found ''Paris'' ''geocoding'' berlin_world =
         (Inr (), berlin_world\<lparr>cachefile := Some (Pickled berlin_cache),
                               write_attempts := 1, writes := [berlin_cache]\<rparr>)"
proof -
  have l: "load_cache berlin_world = Inr berlin_cache"
    by (simp add: load_cache_def berlin_world_def fresh_world_def)
  have d: "open_wb env_found (write_attempts berlin_world)"
    by (simp add: env_found_def)
  have p: "''Paris'' \<notin> dom (geocoding berlin_cache)"
    by (simp add: berlin_cache_def)
  have b: "berlin_cache\<lparr>geocoding := (geocoding berlin_cache)(''Berlin'' := None)\<rparr> = new_cache"
    by (simp add: berlin_cache_def new_cache_def)
  have a: "write_attempts berlin_world = 0" "writes berlin_world = []"
    by (simp_all add: berlin_world_def fresh_world_def)
  show ?thesis
    using remove_item_from_cache_geocoding [OF l d, of "''Berlin''"]
      remove_item_from_cache_geocoding [OF l d, of "''Paris''"] l d p
    by (simp add: a b)
qed

section \<open>Checkpoints\<close>

lemma ceiling_tenth: "nat \<lceil>real K / 10\<rceil> = (K + 9) div 10"
  by linarith

text \<open>
  Claim C1. Take a batch of \<open>K\<close> addresses of an accepted shape, a cache file that can be
  loaded and written, and suppose that no address is found in the cache when its turn
  comes. Then the method returns, and it has written the cache file \<open>\<lceil>K / 10\<rceil>\<close> times.
  More precisely, after \<open>j\<close> iterations the file has been written \<open>j div 10\<close> times
  (\<open>\<lceil>K / 10\<rceil>\<close> times when \<open>j = K\<close>), the flag \<open>fetched_res_since_last_cachewrite\<close> is
  false exactly after every tenth and after the last address, and at those moments the
  file holds the cache as it is in memory.
\<close>

theorem checkpoint_writes:
  assumes acc: "accepted addresses = Some addrs"
    and load: "load_cache w = Inr c"
    and disk: "\<forall>k. open_wb e k"
    and miss: "\<forall>j<length addrs. \<forall>st wj. geocode_upto e addrs j w = (Inr st, wj)
                 \<longrightarrow> geocoding (cache st) (addrs ! j) = None"
  shows "(\<forall>j\<le>length addrs. \<exists>st wj. geocode_upto e addrs j w = (Inr st, wj)
            \<and> length (writes wj) = length (writes w)
                  + (if j = length addrs then nat \<lceil>real j / 10\<rceil> else j div 10)
            \<and> fetched_res_since_last_cachewrite st = (j mod 10 \<noteq> 0 \<and> j \<noteq> length addrs)
            \<and> (0 < j \<and> (j mod 10 = 0 \<or> j = length addrs)
                  \<longrightarrow> cachefile wj = Some (Pickled (cache st)) \<and> last (writes wj) = cache st))
       \<and> (\<exists>out w'. geocode e addresses w = (Inr out, w')
            \<and> length (writes w') = length (writes w) + nat \<lceil>real (length addrs) / 10\<rceil>)"
proof -
  let ?n = "length addrs"
  let ?P = "\<lambda>j st wj. length (writes wj) = length (writes w)
                  + (if j = ?n then nat \<lceil>real j / 10\<rceil> else j div 10)
            \<and> fetched_res_since_last_cachewrite st = (j mod 10 \<noteq> 0 \<and> j \<noteq> ?n)
            \<and> (0 < j \<and> (j mod 10 = 0 \<or> j = ?n)
                  \<longrightarrow> cachefile wj = Some (Pickled (cache st)) \<and> last (writes wj) = cache st)"
  let ?R = "\<lambda>j (p :: (error + ('a, 'b) loop_state) \<times> ('a, 'b) world).
              \<exists>st wj. p = (Inr st, wj) \<and> ?P j st wj"
  have main: "?R j (geocode_upto e addrs j w)" if j: "j \<le> ?n" for j
  proof (rule geocode_upto_induct [where ?m0.0 = 0 and R = ?R])
    show "?R 0 (geocode_upto e addrs 0 w)"
      using load by (auto simp add: geocode_upto_0 initial_state_def)
  next
    fix i st w1
    assume i: "i < j" and up: "geocode_upto e addrs i w = (Inr st, w1)"
      and ih: "?R i (Inr st, w1)"
    have "i < ?n" using i j by simp
    then have m: "geocoding (cache st) (addrs ! i) = None"
      using miss up by blast
    have "open_wb e (write_attempts w1)" using disk by simp
    from geocode_step_miss_checkpoint [OF m this, of ?n i]
    obtain st' w' where s: "geocode_step e ?n i (addrs ! i) st w1 = (Inr st', w')"
      and f: "fetched_res_since_last_cachewrite st' = (\<not> (Suc i mod 10 = 0 \<or> Suc i = ?n))"
      and wr: "writes w' = (if Suc i mod 10 = 0 \<or> Suc i = ?n then writes w1 @ [cache st'] else writes w1)"
      and cf: "Suc i mod 10 = 0 \<or> Suc i = ?n \<longrightarrow> cachefile w' = Some (Pickled (cache st'))"
      by (elim exE conjE) (rule that)
    have len: "length (writes w1) = length (writes w) + i div 10"
      using ih \<open>i < ?n\<close> by simp
    have ceil: "nat \<lceil>real (Suc i) / 10\<rceil> = (i + 10) div 10"
      by (simp only: ceiling_tenth)
    have "length (writes w') = length (writes w)
            + (if Suc i = ?n then nat \<lceil>real (Suc i) / 10\<rceil> else Suc i div 10)"
      unfolding wr ceil using len by (auto simp add: mod_Suc div_Suc split: if_splits)
    moreover have "fetched_res_since_last_cachewrite st' = (Suc i mod 10 \<noteq> 0 \<and> Suc i \<noteq> ?n)"
      using f by simp
    moreover have "Suc i mod 10 = 0 \<or> Suc i = ?n
                     \<longrightarrow> cachefile w' = Some (Pickled (cache st')) \<and> last (writes w') = cache st'"
      using cf wr by simp
    ultimately show "?R (Suc i) (geocode_step e ?n i (addrs ! i) st w1)"
      using s by simp
  qed (use j in auto)
  have final: "?R ?n (geocode_upto e addrs ?n w)" by (rule main) simp
  have "\<exists>out w'. geocode e addresses w = (Inr out, w')
            \<and> length (writes w') = length (writes w) + nat \<lceil>real ?n / 10\<rceil>"
    using final acc by (auto simp add: geocode_def)
  moreover have "\<forall>j\<le>?n. \<exists>st wj. geocode_upto e addrs j w = (Inr st, wj) \<and> ?P j st wj"
    using main by (intro allI impI) simp
  ultimately show ?thesis by (rule conjI [rotated])
qed

theorem checkpoint_writes_witness:
  "accepted (PyList eleven_addresses) = Some eleven_addresses
   \<and> load_cache fresh_world = Inr new_cache
   \<and> (\<forall>k. open_wb env_found k)
   \<and> distinct eleven_addresses
   \<and> set eleven_addresses \<inter> dom (geocoding (new_cache :: (string, nat) cache)) = {}
   \<and> length (writes (snd (geocode env_found (PyList eleven_addresses) fresh_world))) = 2"
proof -
  have a: "accepted (PyList eleven_addresses) = Some eleven_addresses" by simp
  have l: "load_cache fresh_world = (Inr new_cache :: error + (string, nat) cache)"
    by (simp add: load_cache_def fresh_world_def)
  have d: "\<forall>k. open_wb env_found k" by (simp add: env_found_def)
  have di: "distinct eleven_addresses" by (simp add: eleven_addresses_def)
  have dj: "set eleven_addresses \<inter> dom (geocoding (new_cache :: (string, nat) cache)) = {}"
    by (simp add: new_cache_def)
  from di dj have m: "\<forall>j<length eleven_addresses. \<forall>st wj.
         geocode_upto env_found eleven_addresses j fresh_world = (Inr st, wj)
           \<longrightarrow> geocoding (cache st) (eleven_addresses ! j) = None"
    using fresh_addresses_miss [OF l] by blast
  have c: "nat \<lceil>real (length eleven_addresses) / 10\<rceil> = 2"
    by (simp add: eleven_addresses_def)
  have w0: "writes fresh_world = []" by (simp add: fresh_world_def)
  from checkpoint_writes [OF a l d m]
  have "length (writes (snd (geocode env_found (PyList eleven_addresses) fresh_world))) = 2"
    unfolding c w0 by auto
  with a l d di dj show ?thesis by blast
qed

section \<open>Every address gets an entry\<close>

text \<open>
  Claim C7. For a list, a tuple or a set of addresses, with a cache file that can be
  loaded and written, \<open>geocode\<close> returns a dictionary whose keys are exactly the
  addresses of the input, whether or not an address occurs twice. For the empty
  collection it returns the empty dictionary and leaves the world as it was: no provider
  call, no clock reading, no write.
\<close>

theorem geocode_covers_input:
  assumes "accepted addresses = Some addrs" and "load_cache w = Inr c" and "\<forall>k. open_wb e k"
  shows "\<exists>out w'. geocode e addresses w = (Inr out, w') \<and> dom out = set addrs
           \<and> (addrs = [] \<longrightarrow> out = Map.empty \<and> w' = w)"
  using assms by (rule geocode_returns)

theorem geocode_covers_input_witness:
  "accepted (PyTuple [''Paris'', ''Berlin'', ''Paris'']) = Some [''Paris'', ''Berlin'', ''Paris'']
   \<and> accepted (PySet []) = Some []
   \<and> load_cache berlin_world = Inr berlin_cache
   \<and> (\<forall>k. open_wb env_found k)
   \<and> (\<exists>out w'. geocode env_found (PyTuple [''Paris'', ''Berlin'', ''Paris'']) berlin_world = (Inr out, w')
         \<and> dom out = {''Paris'', ''Berlin''})
   \<and> geocode env_found (PySet []) berlin_world = (Inr Map.empty, berlin_world)"
proof -
  have l: "load_cache berlin_world = Inr berlin_cache"
    by (simp add: load_cache_def berlin_world_def fresh_world_def)
  have d: "\<forall>k. open_wb env_found k" by (simp add: env_found_def)
  have a: "accepted (PyTuple [''Paris'', ''Berlin'', ''Paris'']) = Some [''Paris'', ''Berlin'', ''Paris'']"
    and b: "accepted (PySet []) = Some []" by simp_all
  show ?thesis
    using geocode_covers_input [OF a l d] geocode_covers_input [OF b l d] l d by auto
qed

section \<open>Cache hits\<close>

lemma geocode_upto_cache_mono:
  assumes "m0 \<le> m" and "m \<le> length addrs"
    and "geocode_upto e addrs m0 w = (Inr st0, w0)" and "geocode_upto e addrs m w = (Inr st, wm)"
    and "geocoding (cache st0) b = Some r"
  shows "geocoding (cache st) b = Some r"
  by (rule geocode_upto_states
      [where P = "\<lambda>j s v. geocoding (cache s) b = Some r", OF assms(1-4) assms(5)])
    (rule geocode_step_cache_mono)

lemma geocode_upto_consistent:
  assumes "j \<le> length addrs" and "geocode_upto e addrs j w = (Inr st, wj)"
  shows "consistent st"
proof -
  obtain st0 w0 where z: "geocode_upto e addrs 0 w = (Inr st0, w0)"
    using geocode_upto_earlier [OF _ assms, of 0] by auto
  then have "geocoded_addresses st0 = Map.empty"
    by (auto simp add: geocode_upto_def initial_state_def split: sum.splits)
  then have b: "consistent st0" by (simp add: consistent_def)
  show ?thesis
    by (rule geocode_upto_states [where P = "\<lambda>j s v. consistent s", OF _ assms(1) z assms(2) b])
      (auto intro: geocode_step_consistent)
qed

lemma geocode_upto_out_kept:
  assumes "m0 \<le> m" and "m \<le> length addrs"
    and "geocode_upto e addrs m0 w = (Inr st0, w0)" and "geocode_upto e addrs m w = (Inr st, wm)"
    and "\<forall>k. m0 \<le> k \<and> k < m \<longrightarrow> addrs ! k \<noteq> b"
  shows "geocoded_addresses st b = geocoded_addresses st0 b"
proof (rule geocode_upto_states
    [where P = "\<lambda>j s v. geocoded_addresses s b = geocoded_addresses st0 b", OF assms(1-4)])
  fix i s1 w1 s2 w2
  assume "m0 \<le> i" "i < m" "geocoded_addresses s1 b = geocoded_addresses st0 b"
    "geocode_step e (length addrs) i (addrs ! i) s1 w1 = (Inr s2, w2)"
  then show "geocoded_addresses s2 b = geocoded_addresses st0 b"
    using assms(5) geocode_step_out_other [of e "length addrs" i "addrs ! i" s1 w1 s2 w2 b]
    by auto
qed simp

lemma geocode_Inr:
  assumes "accepted addresses = Some addrs" and "geocode e addresses w = (Inr out, w')"
  shows "\<exists>st. geocode_upto e addrs (length addrs) w = (Inr st, w') \<and> out = geocoded_addresses st"
  using assms by (auto simp add: geocode_def split: prod.splits sum.splits)

lemma geocode_step_hit_world:
  assumes "geocoding (cache st) a = Some r" and "geocode_step e n i a st w = (res, w')"
  shows "api_calls w' = api_calls w" and "clock_reads w' = clock_reads w"
  using assms
  by (auto simp add: geocode_step_unfold checkpoint_unfold split: if_splits)

lemma geocode_step_hit_state:
  assumes "geocoding (cache st) a = Some r" and "geocode_step e n i a st w = (Inr st', w')"
  shows "geocoded_addresses st' a = Some (Some r)" and "cache st' = cache st"
  using assms
  by (auto simp add: geocode_step_unfold checkpoint_unfold split: if_splits)

text \<open>
  Claim C4. Let the address at position \<open>j\<close> of the batch be in the result dictionary of
  the cache when its turn comes. Then its iteration sends nothing to the provider and
  does not read the clock, the cache (request log included) is the same after the
  iteration as before, the output entry of the address is the cached result, and it
  still is the cached result in the dictionary that \<open>geocode\<close> returns.
\<close>

theorem cache_hit_uses_cache:
  assumes acc: "accepted addresses = Some addrs" and j: "j < length addrs"
    and up: "geocode_upto e addrs j w = (Inr st, wj)"
    and hit: "geocoding (cache st) (addrs ! j) = Some r"
  shows "api_calls (snd (geocode_upto e addrs (Suc j) w)) = api_calls wj
       \<and> clock_reads (snd (geocode_upto e addrs (Suc j) w)) = clock_reads wj
       \<and> (\<forall>st' wj'. geocode_upto e addrs (Suc j) w = (Inr st', wj')
            \<longrightarrow> geocoded_addresses st' (addrs ! j) = Some (Some r) \<and> cache st' = cache st)
       \<and> (\<forall>out w'. geocode e addresses w = (Inr out, w') \<longrightarrow> out (addrs ! j) = Some (Some r))"
proof -
  let ?n = "length addrs"
  have next_step: "geocode_upto e addrs (Suc j) w = geocode_step e ?n j (addrs ! j) st wj"
    using up by (simp add: geocode_upto_Suc [OF j])
  have world: "api_calls (snd (geocode_upto e addrs (Suc j) w)) = api_calls wj"
    "clock_reads (snd (geocode_upto e addrs (Suc j) w)) = clock_reads wj"
    using geocode_step_hit_world [OF hit, of e ?n j] next_step
    by (metis prod.collapse)+
  have state: "geocoded_addresses st' (addrs ! j) = Some (Some r) \<and> cache st' = cache st"
    if "geocode_upto e addrs (Suc j) w = (Inr st', wj')" for st' wj'
    using geocode_step_hit_state [OF hit, of e ?n j wj st' wj'] that next_step by simp
  have final: "out (addrs ! j) = Some (Some r)" if g: "geocode e addresses w = (Inr out, w')" for out w'
  proof -
    obtain stn where n: "geocode_upto e addrs ?n w = (Inr stn, w')"
      and out: "out = geocoded_addresses stn"
      using geocode_Inr [OF acc g] by auto
    have "geocoding (cache stn) (addrs ! j) = Some r"
      using geocode_upto_cache_mono [OF _ _ up n hit] j by simp
    moreover have "addrs ! j \<in> dom (geocoded_addresses stn)"
      using geocode_upto_out_dom [OF _ n] j by simp
    ultimately show ?thesis
      using geocode_upto_consistent [OF _ n] out by (simp add: consistent_def)
  qed
  show ?thesis using world state final by blast
qed

theorem cache_hit_uses_cache_witness:
  "accepted (PyList [''Berlin'']) = Some [''Berlin'']
   \<and> geocode_upto env_timeout [''Berlin''] 0 berlin_world = (Inr (initial_state berlin_cache), berlin_world)
   \<and> geocoding (cache (initial_state berlin_cache)) ([''Berlin''] ! 0) = Some [''Berlin, Germany'']
   \<and> api_calls (snd (geocode_upto env_timeout [''Berlin''] (Suc 0) berlin_world)) = []
   \<and> (\<exists>out w'. geocode env_timeout (PyList [''Berlin'']) berlin_world = (Inr out, w')
         \<and> out ''Berlin'' = Some (Some [''Berlin, Germany'']))"
proof -
  have l: "load_cache berlin_world = Inr berlin_cache"
    by (simp add: load_cache_def berlin_world_def fresh_world_def)
  have d: "\<forall>k. open_wb env_timeout k" by (simp add: env_timeout_def)
  have a: "accepted (PyList [''Berlin'']) = Some [''Berlin'']" by simp
  have u: "geocode_upto env_timeout [''Berlin''] 0 berlin_world
             = (Inr (initial_state berlin_cache), berlin_world)"
    using l by (simp add: geocode_upto_0)
  have h: "geocoding (cache (initial_state berlin_cache)) ([''Berlin''] ! 0) = Some [''Berlin, Germany'']"
    by (simp add: initial_state_def berlin_cache_def)
  have c: "api_calls berlin_world = []" by (simp add: berlin_world_def fresh_world_def)
  obtain out w' where g: "geocode env_timeout (PyList [''Berlin'']) berlin_world = (Inr out, w')"
    using geocode_returns [OF a l d] by auto
  from cache_hit_uses_cache [OF a _ u h] g c a u h show ?thesis by auto
qed

section \<open>Provider failures and empty results\<close>

lemma geocode_step_raised:
  assumes "geocoding (cache st) a = None" and "gmaps_geocode e (api_calls w) a = Raised x"
    and "geocode_step e n i a st w = (Inr st', w')"
  shows "geocoded_addresses st' a = Some None" and "geocoding (cache st') = geocoding (cache st)"
  using assms
  by (auto simp add: geocode_step_unfold checkpoint_unfold split: option.splits if_splits)

lemma geocode_step_empty:
  assumes "geocoding (cache st) a = None" and "requests (cache st) ''geocoding'' = Some stamps"
    and "gmaps_geocode e (api_calls w) a = Returned []"
    and "geocode_step e n i a st w = (Inr st', w')"
  shows "geocoded_addresses st' a = Some (Some [])" and "geocoding (cache st') = geocoding (cache st)"
  using assms
  by (auto simp add: geocode_step_unfold checkpoint_unfold split: option.splits if_splits)

lemma geocode_step_write_attempts:
  assumes "geocode_step e n i a st w = (Inl err, w')"
  shows "err = IOError" and "\<not> open_wb e (write_attempts w)"
  using geocode_step_error [OF assms] by simp_all

lemma geocode_final_entry:
  assumes acc: "accepted addresses = Some addrs" and j: "j < length addrs"
    and nxt: "geocode_upto e addrs (Suc j) w = (Inr st', wj')"
    and last: "\<forall>k. j < k \<and> k < length addrs \<longrightarrow> addrs ! k \<noteq> addrs ! j"
    and g: "geocode e addresses w = (Inr out, w')"
  shows "out (addrs ! j) = geocoded_addresses st' (addrs ! j)"
proof -
  obtain stn where n: "geocode_upto e addrs (length addrs) w = (Inr stn, w')"
    and out: "out = geocoded_addresses stn"
    using geocode_Inr [OF acc g] by auto
  have "\<forall>k. Suc j \<le> k \<and> k < length addrs \<longrightarrow> addrs ! k \<noteq> addrs ! j"
    using last by auto
  from geocode_upto_out_kept [OF _ _ nxt n this] j out show ?thesis by simp
qed

text \<open>
  Claim C3. Let the address at position \<open>j\<close> miss the cache and let the provider raise
  for it, whatever the exception. Then the iteration does not fail with that exception:
  it ends normally, with the output entry of the address \<open>None\<close> and the result dictionary
  of the cache unchanged, unless the checkpoint write of that iteration cannot open the
  file (\<open>IOError\<close>). When the file can always be written, \<open>geocode\<close> returns a dictionary
  with an entry for every address of the batch, and the entry of this address is \<open>None\<close>
  if the address does not occur again later in the batch.
\<close>

theorem provider_exception_is_absent_result:
  assumes acc: "accepted addresses = Some addrs" and j: "j < length addrs"
    and up: "geocode_upto e addrs j w = (Inr st, wj)"
    and miss: "geocoding (cache st) (addrs ! j) = None"
    and raised: "gmaps_geocode e (api_calls wj) (addrs ! j) = Raised x"
  shows "(case geocode_upto e addrs (Suc j) w of
            (Inl err, wj') \<Rightarrow> err = IOError \<and> \<not> open_wb e (write_attempts wj)
          | (Inr st', wj') \<Rightarrow> geocoded_addresses st' (addrs ! j) = Some None
                               \<and> geocoding (cache st') = geocoding (cache st))
       \<and> ((\<forall>k. open_wb e k) \<longrightarrow>
            (\<exists>out w'. geocode e addresses w = (Inr out, w') \<and> dom out = set addrs
               \<and> ((\<forall>k. j < k \<and> k < length addrs \<longrightarrow> addrs ! k \<noteq> addrs ! j)
                     \<longrightarrow> out (addrs ! j) = Some None)))"
proof -
  let ?n = "length addrs"
  have next_step: "geocode_upto e addrs (Suc j) w = geocode_step e ?n j (addrs ! j) st wj"
    using up by (simp add: geocode_upto_Suc [OF j])
  have first: "(case geocode_upto e addrs (Suc j) w of
            (Inl err, wj') \<Rightarrow> err = IOError \<and> \<not> open_wb e (write_attempts wj)
          | (Inr st', wj') \<Rightarrow> geocoded_addresses st' (addrs ! j) = Some None
                               \<and> geocoding (cache st') = geocoding (cache st))"
    unfolding next_step
    using geocode_step_raised [OF miss raised, of ?n j] geocode_step_write_attempts [of e ?n j "addrs ! j" st wj]
    by (auto split: prod.splits sum.splits)
  have second: "\<exists>out w'. geocode e addresses w = (Inr out, w') \<and> dom out = set addrs
               \<and> ((\<forall>k. j < k \<and> k < length addrs \<longrightarrow> addrs ! k \<noteq> addrs ! j)
                     \<longrightarrow> out (addrs ! j) = Some None)"
    if disk: "\<forall>k. open_wb e k"
  proof -
    obtain c where l: "load_cache w = Inr c"
      using up by (auto simp add: geocode_upto_def split: sum.splits)
    obtain out w' where g: "geocode e addresses w = (Inr out, w')" and d: "dom out = set addrs"
      using geocode_returns [OF acc l disk] by auto
    obtain st' wj' where nxt: "geocode_upto e addrs (Suc j) w = (Inr st', wj')"
      using geocode_upto_total [OF l disk, of "Suc j" addrs] j by auto
    then have "geocoded_addresses st' (addrs ! j) = Some None"
      using first by simp
    then have "(\<forall>k. j < k \<and> k < length addrs \<longrightarrow> addrs ! k \<noteq> addrs ! j)
                     \<longrightarrow> out (addrs ! j) = Some None"
      using geocode_final_entry [OF acc j nxt _ g] by auto
    then show ?thesis using g d by blast
  qed
  show ?thesis using first second by blast
qed


theorem provider_exception_is_absent_result_witness:
  "accepted (PyList [''Berlin'', ''Paris'']) = Some [''Berlin'', ''Paris'']
   \<and> geocode_upto env_timeout [''Berlin'', ''Paris''] 0 fresh_world
         = (Inr (initial_state new_cache), fresh_world)
   \<and> geocoding (cache (initial_state new_cache :: (string, nat) loop_state)) ([''Berlin'', ''Paris''] ! 0) = None
   \<and> gmaps_geocode env_timeout (api_calls fresh_world) ([''Berlin'', ''Paris''] ! 0) = Raised Timeout
   \<and> (\<forall>k. open_wb env_timeout k)
   \<and> (\<exists>out w'. geocode env_timeout (PyList [''Berlin'', ''Paris'']) fresh_world = (Inr out, w')
         \<and> dom out = {''Berlin'', ''Paris''} \<and> out ''Berlin'' = Some None)"
proof -
  let ?addrs = "[''Berlin'', ''Paris'']"
  have l: "load_cache fresh_world = (Inr new_cache :: error + (string, nat) cache)"
    by (simp add: load_cache_def fresh_world_def)
  have a: "accepted (PyList ?addrs) = Some ?addrs" by simp
  have u: "geocode_upto env_timeout ?addrs 0 fresh_world = (Inr (initial_state new_cache), fresh_world)"
    using l by (simp add: geocode_upto_0)
  have m: "geocoding (cache (initial_state new_cache :: (string, nat) loop_state)) (?addrs ! 0) = None"
    by (simp add: initial_state_def new_cache_def)
  have r: "gmaps_geocode env_timeout (api_calls fresh_world) (?addrs ! 0) = Raised Timeout"
    by (simp add: env_timeout_def)
  have d: "\<forall>k. open_wb env_timeout k" by (simp add: env_timeout_def)
  have last: "\<forall>k. 0 < k \<and> k < length ?addrs \<longrightarrow> ?addrs ! k \<noteq> ?addrs ! 0"
    by (auto simp add: less_Suc_eq)
  from provider_exception_is_absent_result [OF a _ u m r] d last
  have "\<exists>out w'. geocode env_timeout (PyList ?addrs) fresh_world = (Inr out, w')
         \<and> dom out = {''Berlin'', ''Paris''} \<and> out ''Berlin'' = Some None"
    by auto
  with a u m r d show ?thesis by blast
qed

text \<open>
  Claim C10. Let the address at position \<open>j\<close> miss the cache, in a cache whose request
  log exists, and let its iteration end normally. If the provider raised, the output
  entry of the address is \<open>None\<close>; if the provider returned the empty list, the entry is
  that empty list; the two entries are different values. In both cases the address is
  still absent from the result dictionary of the cache. The entry is the one that
  \<open>geocode\<close> returns when the address does not occur again later in the batch.
\<close>

theorem failure_and_empty_result_differ:
  assumes acc: "accepted addresses = Some addrs" and j: "j < length addrs"
    and up: "geocode_upto e addrs j w = (Inr st, wj)"
    and miss: "geocoding (cache st) (addrs ! j) = None"
    and key: "requests (cache st) ''geocoding'' = Some stamps"
    and nxt: "geocode_upto e addrs (Suc j) w = (Inr st', wj')"
  shows "(\<forall>x. gmaps_geocode e (api_calls wj) (addrs ! j) = Raised x
            \<longrightarrow> geocoded_addresses st' (addrs ! j) = Some None
                \<and> geocoding (cache st') (addrs ! j) = None)
       \<and> (gmaps_geocode e (api_calls wj) (addrs ! j) = Returned []
            \<longrightarrow> geocoded_addresses st' (addrs ! j) = Some (Some [])
                \<and> geocoding (cache st') (addrs ! j) = None)
       \<and> (Some None :: 'a list option option) \<noteq> Some (Some [])
       \<and> (\<forall>out w'. geocode e addresses w = (Inr out, w')
              \<and> (\<forall>k. j < k \<and> k < length addrs \<longrightarrow> addrs ! k \<noteq> addrs ! j)
            \<longrightarrow> out (addrs ! j) = geocoded_addresses st' (addrs ! j))"
proof -
  let ?n = "length addrs"
  have next_step: "geocode_step e ?n j (addrs ! j) st wj = (Inr st', wj')"
    using up nxt by (simp add: geocode_upto_Suc [OF j])
  have raised: "geocoded_addresses st' (addrs ! j) = Some None \<and> geocoding (cache st') (addrs ! j) = None"
    if "gmaps_geocode e (api_calls wj) (addrs ! j) = Raised x" for x
    using geocode_step_raised [OF miss that next_step] miss by simp
  have empty: "geocoded_addresses st' (addrs ! j) = Some (Some []) \<and> geocoding (cache st') (addrs ! j) = None"
    if "gmaps_geocode e (api_calls wj) (addrs ! j) = Returned []"
    using geocode_step_empty [OF miss key that next_step] miss by simp
  have final: "out (addrs ! j) = geocoded_addresses st' (addrs ! j)"
    if "geocode e addresses w = (Inr out, w')"
      and "\<forall>k. j < k \<and> k < length addrs \<longrightarrow> addrs ! k \<noteq> addrs ! j" for out w'
    using geocode_final_entry [OF acc j nxt that(2) that(1)] .
  show ?thesis using raised empty final by blast
qed

theorem failure_and_empty_result_differ_witness:
  "(\<exists>out w'. geocode env_timeout (PyList [''Berlin'']) fresh_world = (Inr out, w')
       \<and> out ''Berlin'' = Some None)
   \<and> (\<exists>out w'. geocode env_empty (PyList [''Berlin'']) fresh_world = (Inr out, w')
       \<and> out ''Berlin'' = Some (Some []))"
proof -
  let ?addrs = "[''Berlin'']"
  have l: "load_cache fresh_world = (Inr new_cache :: error + (string, nat) cache)"
    by (simp add: load_cache_def fresh_world_def)
  have a: "accepted (PyList ?addrs) = Some ?addrs" by simp
  have m: "geocoding (cache (initial_state new_cache :: (string, nat) loop_state)) (?addrs ! 0) = None"
    by (simp add: initial_state_def new_cache_def)
  have k: "requests (cache (initial_state new_cache :: (string, nat) loop_state)) ''geocoding'' = Some []"
    by (simp add: initial_state_def new_cache_def)
  have last: "\<forall>k. 0 < k \<and> k < length ?addrs \<longrightarrow> ?addrs ! k \<noteq> ?addrs ! 0" by auto
  have one: "\<exists>out w'. geocode e (PyList ?addrs) fresh_world = (Inr out, w')
               \<and> out ''Berlin'' = (case gmaps_geocode e [] ''Berlin'' of Raised x \<Rightarrow> Some None | Returned r \<Rightarrow> Some (Some []))"
    if d: "\<forall>k. open_wb e k" and o: "gmaps_geocode e [] ''Berlin'' = Raised x \<or> gmaps_geocode e [] ''Berlin'' = Returned []"
    for e :: "(string, nat) env" and x
  proof -
    have u: "geocode_upto e ?addrs 0 fresh_world = (Inr (initial_state new_cache), fresh_world)"
      using l by (simp add: geocode_upto_0)
    obtain st' wj' where n: "geocode_upto e ?addrs (Suc 0) fresh_world = (Inr st', wj')"
      using geocode_upto_total [OF l d, of "Suc 0" ?addrs] by auto
    obtain out w' where g: "geocode e (PyList ?addrs) fresh_world = (Inr out, w')"
      using geocode_returns [OF a l d] by auto
    have c: "api_calls fresh_world = []" by (simp add: fresh_world_def)
    from failure_and_empty_result_differ [OF a _ u m k n] g last o c
    show ?thesis by auto
  qed
  have "\<forall>k. open_wb env_timeout k" "gmaps_geocode env_timeout [] ''Berlin'' = Raised Timeout"
    "\<forall>k. open_wb env_empty k" "gmaps_geocode env_empty [] ''Berlin'' = Returned []"
    by (simp_all add: env_timeout_def env_empty_def)
  then show ?thesis
    using one [of env_timeout Timeout] one [of env_empty] by simp
qed

section \<open>The request log\<close>

lemma geocode_step_log_hit:
  assumes "geocoding (cache st) a = Some r" and "geocode_step e n i a st w = (Inr st', w')"
  shows "requests (cache st') = requests (cache st)" and "api_calls w' = api_calls w"
    and "clock_reads w' = clock_reads w"
  using assms
  by (auto simp add: geocode_step_unfold checkpoint_unfold split: if_splits)

lemma geocode_step_log_miss:
  assumes "geocoding (cache st) a = None" and "requests (cache st) ''geocoding'' = Some stamps"
    and "geocode_step e n i a st w = (Inr st', w')"
  shows "requests (cache st')
           = (requests (cache st))(''geocoding'' \<mapsto> stamps @ [datetime_now e (clock_reads w)])"
    and "api_calls w' = api_calls w @ [a]" and "clock_reads w' = Suc (clock_reads w)"
  using assms
  by (auto simp add: geocode_step_unfold checkpoint_unfold split: outcome.splits if_splits)

lemma geocode_step_log_nokey:
  assumes "geocoding (cache st) a = None" and "requests (cache st) ''geocoding'' = None"
    and "geocode_step e n i a st w = (Inr st', w')"
  shows "requests (cache st') = requests (cache st)" and "api_calls w' = api_calls w"
    and "clock_reads w' = clock_reads w"
  using assms
  by (auto simp add: geocode_step_unfold checkpoint_unfold split: if_splits)

lemma geocode_step_log_length:
  assumes "geocode_step e n i a st w = (Inr st', w')"
  shows "length (request_log (cache st')) + length (api_calls w)
           = length (request_log (cache st)) + length (api_calls w')"
proof (cases "geocoding (cache st) a")
  case (Some r)
  then show ?thesis using geocode_step_log_hit [OF Some assms] by (simp add: request_log_def)
next
  case None
  show ?thesis
  proof (cases "requests (cache st) ''geocoding''")
    case (Some stamps)
    then show ?thesis using geocode_step_log_miss [OF None Some assms] by (simp add: request_log_def)
  next
    case n: None
    then show ?thesis using geocode_step_log_nokey [OF None n assms] by (simp add: request_log_def)
  qed
qed

lemma geocode_upto_log_length:
  assumes "load_cache w = Inr c" and "j \<le> length addrs"
    and "geocode_upto e addrs j w = (Inr st, wj)"
  shows "length (request_log (cache st)) + length (api_calls w)
           = length (request_log c) + length (api_calls wj)"
proof -
  have z: "geocode_upto e addrs 0 w = (Inr (initial_state c), w)"
    using assms(1) by (simp add: geocode_upto_0)
  show ?thesis
  proof (rule geocode_upto_states
      [where P = "\<lambda>j s v. length (request_log (cache s)) + length (api_calls w)
                             = length (request_log c) + length (api_calls v)",
        OF _ assms(2) z assms(3)])
    fix i s1 w1 s2 w2
    assume "length (request_log (cache s1)) + length (api_calls w)
              = length (request_log c) + length (api_calls w1)"
      "geocode_step e (length addrs) i (addrs ! i) s1 w1 = (Inr s2, w2)"
    then show "length (request_log (cache s2)) + length (api_calls w)
              = length (request_log c) + length (api_calls w2)"
      using geocode_step_log_length [of e "length addrs" i "addrs ! i" s1 w1 s2 w2] by simp
  qed (simp_all add: initial_state_def)
qed

text \<open>
  Claim C6. Let the iteration for the address at position \<open>j\<close> end normally. If the
  address was a cache hit, the request dictionary, the list of provider calls and the
  clock are as before. If it was a miss and the request log exists, exactly one
  timestamp (the current clock reading) was appended to the log and exactly one call,
  for this address, was sent to the provider, whatever the provider answered. If it was
  a miss and the request log is missing, nothing was appended and nothing was sent.
  So after any number of iterations the request log has grown by as many timestamps as
  provider calls were made.
\<close>

theorem one_timestamp_per_provider_call:
  assumes j: "j < length addrs"
    and up: "geocode_upto e addrs j w = (Inr st, wj)"
    and nxt: "geocode_upto e addrs (Suc j) w = (Inr st', wj')"
  shows "(geocoding (cache st) (addrs ! j) \<noteq> None \<longrightarrow>
            requests (cache st') = requests (cache st) \<and> api_calls wj' = api_calls wj
            \<and> clock_reads wj' = clock_reads wj)
       \<and> (geocoding (cache st) (addrs ! j) = None \<longrightarrow>
            (case requests (cache st) ''geocoding'' of
               Some stamps \<Rightarrow>
                 requests (cache st') = (requests (cache st))
                     (''geocoding'' \<mapsto> stamps @ [datetime_now e (clock_reads wj)])
                 \<and> api_calls wj' = api_calls wj @ [addrs ! j]
                 \<and> clock_reads wj' = Suc (clock_reads wj)
             | None \<Rightarrow>
                 requests (cache st') = requests (cache st) \<and> api_calls wj' = api_calls wj
                 \<and> clock_reads wj' = clock_reads wj))
       \<and> (\<forall>c. load_cache w = Inr c \<longrightarrow>
            length (request_log (cache st')) + length (api_calls w)
              = length (request_log c) + length (api_calls wj'))"
proof -
  let ?n = "length addrs"
  have s: "geocode_step e ?n j (addrs ! j) st wj = (Inr st', wj')"
    using up nxt by (simp add: geocode_upto_Suc [OF j])
  have hit: "requests (cache st') = requests (cache st) \<and> api_calls wj' = api_calls wj
            \<and> clock_reads wj' = clock_reads wj" if "geocoding (cache st) (addrs ! j) \<noteq> None"
    using that geocode_step_log_hit [OF _ s] by auto
  have miss: "(case requests (cache st) ''geocoding'' of
               Some stamps \<Rightarrow>
                 requests (cache st') = (requests (cache st))
                     (''geocoding'' \<mapsto> stamps @ [datetime_now e (clock_reads wj)])
                 \<and> api_calls wj' = api_calls wj @ [addrs ! j]
                 \<and> clock_reads wj' = Suc (clock_reads wj)
             | None \<Rightarrow>
                 requests (cache st') = requests (cache st) \<and> api_calls wj' = api_calls wj
                 \<and> clock_reads wj' = clock_reads wj)" if m: "geocoding (cache st) (addrs ! j) = None"
    using geocode_step_log_miss [OF m _ s] geocode_step_log_nokey [OF m _ s]
    by (auto split: option.splits)
  have total: "length (request_log (cache st')) + length (api_calls w)
              = length (request_log c) + length (api_calls wj')" if "load_cache w = Inr c" for c
    using geocode_upto_log_length [OF that _ nxt] j by simp
  show ?thesis using hit miss total by blast
qed

theorem one_timestamp_per_provider_call_witness:
  "(\<exists>st' wj'. geocode_upto env_empty [''Berlin''] (Suc 0) fresh_world = (Inr st', wj')
       \<and> requests (cache st') ''geocoding'' = Some [0] \<and> api_calls wj' = [''Berlin''])
   \<and> (\<exists>st' wj'. geocode_upto env_empty [''Berlin''] (Suc 0) berlin_world = (Inr st', wj')
       \<and> requests (cache st') ''geocoding'' = Some [] \<and> api_calls wj' = [])"
proof -
  let ?addrs = "[''Berlin'']"
  have d: "\<forall>k. open_wb env_empty k" by (simp add: env_empty_def)
  have l: "load_cache fresh_world = (Inr new_cache :: error + (string, nat) cache)"
    by (simp add: load_cache_def fresh_world_def)
  have u: "geocode_upto env_empty ?addrs 0 fresh_world = (Inr (initial_state new_cache), fresh_world)"
    using l by (simp add: geocode_upto_0)
  obtain st1 w1 where n: "geocode_upto env_empty ?addrs (Suc 0) fresh_world = (Inr st1, w1)"
    using geocode_upto_total [OF l d, of "Suc 0" ?addrs] by auto
  have f: "geocoding (cache (initial_state new_cache :: (string, nat) loop_state)) (?addrs ! 0) = None"
    "requests (cache (initial_state new_cache :: (string, nat) loop_state)) ''geocoding'' = Some []"
    "api_calls fresh_world = []" "clock_reads fresh_world = 0" "datetime_now env_empty 0 = 0"
    by (simp_all add: initial_state_def new_cache_def fresh_world_def env_empty_def)
  have first: "requests (cache st1) ''geocoding'' = Some [0] \<and> api_calls w1 = [''Berlin'']"
    using one_timestamp_per_provider_call [OF _ u n] f by simp
  have l2: "load_cache berlin_world = Inr berlin_cache"
    by (simp add: load_cache_def berlin_world_def fresh_world_def)
  have u2: "geocode_upto env_empty ?addrs 0 berlin_world = (Inr (initial_state berlin_cache), berlin_world)"
    using l2 by (simp add: geocode_upto_0)
  obtain st2 w2 where n2: "geocode_upto env_empty ?addrs (Suc 0) berlin_world = (Inr st2, w2)"
    using geocode_upto_total [OF l2 d, of "Suc 0" ?addrs] by auto
  have f2: "geocoding (cache (initial_state berlin_cache)) (?addrs ! 0) \<noteq> None"
    "requests (cache (initial_state berlin_cache)) ''geocoding'' = Some []"
    "api_calls berlin_world = []"
    by (simp_all add: initial_state_def berlin_cache_def new_cache_def berlin_world_def fresh_world_def)
  have second: "requests (cache st2) ''geocoding'' = Some [] \<and> api_calls w2 = []"
    using one_timestamp_per_provider_call [OF _ u2 n2] f2 by simp
  show ?thesis using n first n2 second by simp
qed

section \<open>The same address twice in one batch\<close>

lemma geocode_step_no_call:
  assumes "geocode_step e n i b s1 w1 = (Inr s2, w2)" and "geocoding (cache s1) a \<noteq> None"
  shows "geocoding (cache s2) a \<noteq> None
         \<and> (\<exists>new. api_calls w2 = api_calls w1 @ new \<and> count_list new a = 0)"
  using assms
  by (auto simp add: geocode_step_unfold checkpoint_unfold
      split: option.splits outcome.splits if_splits)

lemma geocode_upto_no_call:
  assumes "m0 \<le> m" and "m \<le> length addrs"
    and "geocode_upto e addrs m0 w = (Inr st0, w0)" and "geocode_upto e addrs m w = (Inr st, wm)"
    and "geocoding (cache st0) a \<noteq> None"
  shows "geocoding (cache st) a \<noteq> None
         \<and> (\<exists>new. api_calls wm = api_calls w0 @ new \<and> count_list new a = 0)"
proof (rule geocode_upto_states
    [where P = "\<lambda>j s v. geocoding (cache s) a \<noteq> None
                   \<and> (\<exists>new. api_calls v = api_calls w0 @ new \<and> count_list new a = 0)",
      OF assms(1-4)])
  show "geocoding (cache st0) a \<noteq> None
          \<and> (\<exists>new. api_calls w0 = api_calls w0 @ new \<and> count_list new a = 0)"
    using assms(5) by simp
next
  fix i s1 w1 s2 w2
  assume p: "geocoding (cache s1) a \<noteq> None
          \<and> (\<exists>new. api_calls w1 = api_calls w0 @ new \<and> count_list new a = 0)"
    and s: "geocode_step e (length addrs) i (addrs ! i) s1 w1 = (Inr s2, w2)"
  from p obtain new1 where n1: "api_calls w1 = api_calls w0 @ new1" "count_list new1 a = 0"
    by blast
  from geocode_step_no_call [OF s] p obtain new2
    where n2: "geocoding (cache s2) a \<noteq> None" "api_calls w2 = api_calls w1 @ new2"
      "count_list new2 a = 0"
    by blast
  have "api_calls w2 = api_calls w0 @ (new1 @ new2) \<and> count_list (new1 @ new2) a = 0"
    using n1 n2 by simp
  then show "geocoding (cache s2) a \<noteq> None
          \<and> (\<exists>new. api_calls w2 = api_calls w0 @ new \<and> count_list new a = 0)"
    using n2(1) by blast
qed

lemma geocode_step_found:
  assumes "geocoding (cache st) a = None" and "requests (cache st) ''geocoding'' \<noteq> None"
    and "gmaps_geocode e (api_calls w) a = Returned r" and "r \<noteq> []"
    and "geocode_step e n i a st w = (Inr st', w')"
  shows "geocoding (cache st') a = Some r" and "api_calls w' = api_calls w @ [a]"
  using assms
  by (auto simp add: geocode_step_unfold checkpoint_unfold split: option.splits if_splits)

lemma geocode_step_key:
  assumes "geocode_step e n i b s1 w1 = (Inr s2, w2)" and "requests (cache s1) ''geocoding'' \<noteq> None"
  shows "requests (cache s2) ''geocoding'' \<noteq> None"
  using assms
  by (auto simp add: geocode_step_unfold checkpoint_unfold
      split: option.splits outcome.splits if_splits)

lemma geocode_step_miss_world:
  assumes "geocoding (cache st) a = None" and "requests (cache st) ''geocoding'' \<noteq> None"
    and "geocode_step e n i a st w = (res, w')"
  shows "api_calls w' = api_calls w @ [a]"
  using assms
  by (auto simp add: geocode_step_unfold checkpoint_unfold
      split: option.splits outcome.splits if_splits)

lemma geocode_step_not_cached:
  assumes miss: "geocoding (cache st) a = None" and key: "requests (cache st) ''geocoding'' \<noteq> None"
    and failed: "(\<exists>x. gmaps_geocode e (api_calls w) a = Raised x)
                  \<or> gmaps_geocode e (api_calls w) a = Returned []"
    and s: "geocode_step e n i a st w = (Inr st', w')"
  shows "geocoding (cache st') a = None"
proof -
  obtain stamps where k: "requests (cache st) ''geocoding'' = Some stamps" using key by auto
  from failed show ?thesis
  proof
    assume "\<exists>x. gmaps_geocode e (api_calls w) a = Raised x"
    then obtain x where "gmaps_geocode e (api_calls w) a = Raised x" ..
    from geocode_step_raised(2) [OF miss this s] miss show ?thesis by simp
  next
    assume "gmaps_geocode e (api_calls w) a = Returned []"
    from geocode_step_empty(2) [OF miss k this s] miss show ?thesis by simp
  qed
qed

lemma geocode_upto_still_absent:
  assumes "m0 \<le> m" and "m \<le> length addrs"
    and "geocode_upto e addrs m0 w = (Inr st0, w0)" and "geocode_upto e addrs m w = (Inr st, wm)"
    and "geocoding (cache st0) a = None" and "requests (cache st0) ''geocoding'' \<noteq> None"
    and other: "\<forall>i. m0 \<le> i \<and> i < m \<longrightarrow> addrs ! i \<noteq> a"
  shows "geocoding (cache st) a = None \<and> requests (cache st) ''geocoding'' \<noteq> None"
proof (rule geocode_upto_states
    [where P = "\<lambda>j s v. geocoding (cache s) a = None \<and> requests (cache s) ''geocoding'' \<noteq> None",
      OF assms(1-4)])
  show "geocoding (cache st0) a = None \<and> requests (cache st0) ''geocoding'' \<noteq> None"
    using assms(5,6) by simp
next
  fix i s1 w1 s2 w2
  assume i: "m0 \<le> i" "i < m"
    and p: "geocoding (cache s1) a = None \<and> requests (cache s1) ''geocoding'' \<noteq> None"
    and s: "geocode_step e (length addrs) i (addrs ! i) s1 w1 = (Inr s2, w2)"
  have "a \<noteq> addrs ! i" using other i by auto
  then show "geocoding (cache s2) a = None \<and> requests (cache s2) ''geocoding'' \<noteq> None"
    using geocode_step_cache_other [OF s, of a] geocode_step_key [OF s] p by simp
qed

lemma duplicate_after_failure:
  assumes jk: "j < k" and k: "k < length addrs" and same: "addrs ! k = addrs ! j"
    and up: "geocode_upto e addrs j w = (Inr st, wj)"
    and miss: "geocoding (cache st) (addrs ! j) = None"
    and key: "requests (cache st) ''geocoding'' \<noteq> None"
    and failed: "(\<exists>x. gmaps_geocode e (api_calls wj) (addrs ! j) = Raised x)
                  \<or> gmaps_geocode e (api_calls wj) (addrs ! j) = Returned []"
  shows "(\<forall>st1 w1. geocode_upto e addrs (Suc j) w = (Inr st1, w1)
            \<longrightarrow> geocoding (cache st1) (addrs ! j) = None)
       \<and> ((\<forall>m. j < m \<and> m < k \<longrightarrow> addrs ! m \<noteq> addrs ! j) \<longrightarrow>
            (\<forall>stk wk. geocode_upto e addrs k w = (Inr stk, wk)
               \<longrightarrow> geocoding (cache stk) (addrs ! k) = None
                   \<and> api_calls (snd (geocode_upto e addrs (Suc k) w)) = api_calls wk @ [addrs ! k]))"
proof -
  let ?n = "length addrs"
  let ?a = "addrs ! j"
  have j: "j < ?n" using jk k by simp
  have first: "geocoding (cache st1) ?a = None \<and> requests (cache st1) ''geocoding'' \<noteq> None"
    if u1: "geocode_upto e addrs (Suc j) w = (Inr st1, w1)" for st1 w1
  proof -
    have s: "geocode_step e ?n j ?a st wj = (Inr st1, w1)"
      using up u1 by (simp add: geocode_upto_Suc [OF j])
    show ?thesis
      using geocode_step_not_cached [OF miss key failed s] geocode_step_key [OF s key] by simp
  qed
  have again: "geocoding (cache stk) (addrs ! k) = None
                   \<and> api_calls (snd (geocode_upto e addrs (Suc k) w)) = api_calls wk @ [addrs ! k]"
    if nxt: "\<forall>m. j < m \<and> m < k \<longrightarrow> addrs ! m \<noteq> ?a"
      and uk: "geocode_upto e addrs k w = (Inr stk, wk)" for stk wk
  proof -
    obtain st1 w1 where u1: "geocode_upto e addrs (Suc j) w = (Inr st1, w1)"
      using geocode_upto_earlier [OF _ _ uk, of "Suc j"] jk k by auto
    have o: "\<forall>i. Suc j \<le> i \<and> i < k \<longrightarrow> addrs ! i \<noteq> ?a" using nxt by auto
    have f: "geocoding (cache st1) ?a = None" "requests (cache st1) ''geocoding'' \<noteq> None"
      using first [OF u1] by simp_all
    have at_k: "geocoding (cache stk) ?a = None \<and> requests (cache stk) ''geocoding'' \<noteq> None"
      using geocode_upto_still_absent [OF _ _ u1 uk f o] jk k by simp
    have "geocode_upto e addrs (Suc k) w = geocode_step e ?n k (addrs ! k) stk wk"
      using uk by (simp add: geocode_upto_Suc [OF k])
    then have "api_calls (snd (geocode_upto e addrs (Suc k) w)) = api_calls wk @ [addrs ! k]"
      using geocode_step_miss_world [of stk "addrs ! k" e ?n k wk] at_k same
      by (metis prod.collapse)
    then show ?thesis using at_k same by simp
  qed
  show ?thesis using first again by blast
qed

lemma duplicate_after_populated:
  assumes jk: "j < k" and k: "k < length addrs" and same: "addrs ! k = addrs ! j"
    and up: "geocode_upto e addrs j w = (Inr st, wj)"
    and populated: "geocoding (cache st) (addrs ! j) \<noteq> None
         \<or> (requests (cache st) ''geocoding'' \<noteq> None
              \<and> (\<exists>r. r \<noteq> [] \<and> gmaps_geocode e (api_calls wj) (addrs ! j) = Returned r))"
  shows "(\<forall>m stm wm. j < m \<and> m \<le> length addrs \<and> geocode_upto e addrs m w = (Inr stm, wm)
            \<longrightarrow> geocoding (cache stm) (addrs ! j) \<noteq> None
                \<and> (\<exists>new. api_calls wm = api_calls wj @ new
                      \<and> count_list new (addrs ! j)
                          = (if geocoding (cache st) (addrs ! j) = None then 1 else 0)))
       \<and> (\<forall>stk wk. geocode_upto e addrs k w = (Inr stk, wk)
            \<longrightarrow> api_calls (snd (geocode_upto e addrs (Suc k) w)) = api_calls wk)"
proof -
  let ?n = "length addrs"
  let ?a = "addrs ! j"
  have j: "j < ?n" using jk k by simp
  have later: "geocoding (cache stm) ?a \<noteq> None
                \<and> (\<exists>new. api_calls wm = api_calls wj @ new
                      \<and> count_list new ?a = (if geocoding (cache st) ?a = None then 1 else 0))"
    if m: "j < m" "m \<le> ?n" and um: "geocode_upto e addrs m w = (Inr stm, wm)" for m stm wm
  proof (cases "geocoding (cache st) ?a = None")
    case False
    then show ?thesis
      using geocode_upto_no_call [OF _ m(2) up um, of ?a] m(1) by auto
  next
    case True
    then obtain r where key: "requests (cache st) ''geocoding'' \<noteq> None"
      and r: "r \<noteq> []" "gmaps_geocode e (api_calls wj) ?a = Returned r"
      using populated by blast
    obtain st1 w1 where u1: "geocode_upto e addrs (Suc j) w = (Inr st1, w1)"
      using geocode_upto_earlier [OF _ m(2) um, of "Suc j"] m(1) by auto
    then have s: "geocode_step e ?n j ?a st wj = (Inr st1, w1)"
      using up by (simp add: geocode_upto_Suc [OF j])
    have f: "geocoding (cache st1) ?a = Some r" "api_calls w1 = api_calls wj @ [?a]"
      using geocode_step_found [OF True key r(2,1) s] by simp_all
    from geocode_upto_no_call [OF _ m(2) u1 um, of ?a] f(1) m(1)
    obtain new where n: "geocoding (cache stm) ?a \<noteq> None" "api_calls wm = api_calls w1 @ new"
      "count_list new ?a = 0"
      by auto
    have "api_calls wm = api_calls wj @ (?a # new) \<and> count_list (?a # new) ?a = 1"
      using n f(2) by simp
    then show ?thesis using n(1) True by (simp del: count_list.simps)
  qed
  have second: "api_calls (snd (geocode_upto e addrs (Suc k) w)) = api_calls wk"
    if uk: "geocode_upto e addrs k w = (Inr stk, wk)" for stk wk
  proof -
    have "geocoding (cache stk) (addrs ! k) \<noteq> None"
      using later [OF jk _ uk] k same by simp
    then obtain r where hit: "geocoding (cache stk) (addrs ! k) = Some r" by auto
    have "geocode_upto e addrs (Suc k) w = geocode_step e ?n k (addrs ! k) stk wk"
      using uk by (simp add: geocode_upto_Suc [OF k])
    then show ?thesis
      using geocode_step_hit_world(1) [OF hit, of e ?n k wk] by (metis prod.collapse)
  qed
  show ?thesis using later second by blast
qed

text \<open>
  Claim C5 does not hold as stated: the cache is populated by the first occurrence only
  when its lookup returns a non-empty result. With a provider that times out, the batch
  \<open>['Berlin', 'Berlin']\<close> sends two lookups for the one address.
\<close>

theorem duplicate_address_counterexample:
  "api_calls (snd (geocode env_timeout (PyList [''Berlin'', ''Berlin'']) fresh_world))
     = [''Berlin'', ''Berlin'']"
  by (simp add: geocode_def geocode_upto_def load_cache_def fresh_world_def env_timeout_def
      initial_state_def new_cache_def geocode_step_unfold checkpoint_unfold)

text \<open>
  Claim C5, amended. Let the address at position \<open>j\<close> occur again at a later position
  \<open>k\<close>. If the cache is populated at position \<open>j\<close> (the address is in the cache already,
  or the request log exists and the provider returns a non-empty result for it), then at
  every later moment of the call the address is in the cache and the provider has been
  asked for it once since position \<open>j\<close> (not at all when it was in the cache already);
  in particular the iteration at position \<open>k\<close> sends nothing to the provider.
  If instead the address misses the cache at position \<open>j\<close> and its lookup raises or
  returns the empty list, the address is not in the cache after that iteration, and when
  \<open>k\<close> is its next occurrence it still is not in the cache there and the iteration at
  position \<open>k\<close> sends a lookup for it to the provider again.
\<close>

theorem duplicate_address_is_cache_hit:
  assumes jk: "j < k" and k: "k < length addrs" and same: "addrs ! k = addrs ! j"
    and up: "geocode_upto e addrs j w = (Inr st, wj)"
  shows "(geocoding (cache st) (addrs ! j) \<noteq> None
          \<or> (requests (cache st) ''geocoding'' \<noteq> None
               \<and> (\<exists>r. r \<noteq> [] \<and> gmaps_geocode e (api_calls wj) (addrs ! j) = Returned r))
          \<longrightarrow>
          (\<forall>m stm wm. j < m \<and> m \<le> length addrs \<and> geocode_upto e addrs m w = (Inr stm, wm)
              \<longrightarrow> geocoding (cache stm) (addrs ! j) \<noteq> None
                  \<and> (\<exists>new. api_calls wm = api_calls wj @ new
                        \<and> count_list new (addrs ! j)
                            = (if geocoding (cache st) (addrs ! j) = None then 1 else 0)))
          \<and> (\<forall>stk wk. geocode_upto e addrs k w = (Inr stk, wk)
              \<longrightarrow> api_calls (snd (geocode_upto e addrs (Suc k) w)) = api_calls wk))
       \<and> (geocoding (cache st) (addrs ! j) = None
          \<and> requests (cache st) ''geocoding'' \<noteq> None
          \<and> ((\<exists>x. gmaps_geocode e (api_calls wj) (addrs ! j) = Raised x)
               \<or> gmaps_geocode e (api_calls wj) (addrs ! j) = Returned [])
          \<longrightarrow>
          (\<forall>st1 w1. geocode_upto e addrs (Suc j) w = (Inr st1, w1)
              \<longrightarrow> geocoding (cache st1) (addrs ! j) = None)
          \<and> ((\<forall>m. j < m \<and> m < k \<longrightarrow> addrs ! m \<noteq> addrs ! j) \<longrightarrow>
               (\<forall>stk wk. geocode_upto e addrs k w = (Inr stk, wk)
                  \<longrightarrow> geocoding (cache stk) (addrs ! k) = None
                      \<and> api_calls (snd (geocode_upto e addrs (Suc k) w))
                            = api_calls wk @ [addrs ! k])))"
proof -
  have one: "geocoding (cache st) (addrs ! j) \<noteq> None
          \<or> (requests (cache st) ''geocoding'' \<noteq> None
               \<and> (\<exists>r. r \<noteq> [] \<and> gmaps_geocode e (api_calls wj) (addrs ! j) = Returned r))
          \<longrightarrow>
          (\<forall>m stm wm. j < m \<and> m \<le> length addrs \<and> geocode_upto e addrs m w = (Inr stm, wm)
              \<longrightarrow> geocoding (cache stm) (addrs ! j) \<noteq> None
                  \<and> (\<exists>new. api_calls wm = api_calls wj @ new
                        \<and> count_list new (addrs ! j)
                            = (if geocoding (cache st) (addrs ! j) = None then 1 else 0)))
          \<and> (\<forall>stk wk. geocode_upto e addrs k w = (Inr stk, wk)
              \<longrightarrow> api_calls (snd (geocode_upto e addrs (Suc k) w)) = api_calls wk)"
    by (rule impI) (rule duplicate_after_populated [OF jk k same up])
  have two: "geocoding (cache st) (addrs ! j) = None
          \<and> requests (cache st) ''geocoding'' \<noteq> None
          \<and> ((\<exists>x. gmaps_geocode e (api_calls wj) (addrs ! j) = Raised x)
               \<or> gmaps_geocode e (api_calls wj) (addrs ! j) = Returned [])
          \<longrightarrow>
          (\<forall>st1 w1. geocode_upto e addrs (Suc j) w = (Inr st1, w1)
              \<longrightarrow> geocoding (cache st1) (addrs ! j) = None)
          \<and> ((\<forall>m. j < m \<and> m < k \<longrightarrow> addrs ! m \<noteq> addrs ! j) \<longrightarrow>
               (\<forall>stk wk. geocode_upto e addrs k w = (Inr stk, wk)
                  \<longrightarrow> geocoding (cache stk) (addrs ! k) = None
                      \<and> api_calls (snd (geocode_upto e addrs (Suc k) w))
                            = api_calls wk @ [addrs ! k]))"
    by (rule impI, elim conjE) (rule duplicate_after_failure [OF jk k same up])
  from one two show ?thesis by (rule conjI)
qed

theorem duplicate_address_is_cache_hit_witness:
  "geocode_upto env_found [''Berlin'', ''Berlin''] 0 fresh_world
     = (Inr (initial_state new_cache), fresh_world)
   \<and> requests (cache (initial_state new_cache :: (string, nat) loop_state)) ''geocoding'' \<noteq> None
   \<and> gmaps_geocode env_found (api_calls fresh_world) ''Berlin'' = Returned [''Berlin'']
   \<and> (\<exists>out w'. geocode env_found (PyList [''Berlin'', ''Berlin'']) fresh_world = (Inr out, w')
         \<and> count_list (api_calls w') ''Berlin'' = 1)
   \<and> gmaps_geocode env_timeout (api_calls fresh_world) ''Berlin'' = Raised Timeout
   \<and> (\<exists>stk wk. geocode_upto env_timeout [''Berlin'', ''Berlin''] 1 fresh_world = (Inr stk, wk)
         \<and> geocoding (cache stk) ''Berlin'' = None
         \<and> api_calls (snd (geocode_upto env_timeout [''Berlin'', ''Berlin''] (Suc 1) fresh_world))
              = api_calls wk @ [''Berlin''])"
proof -
  let ?addrs = "[''Berlin'', ''Berlin'']"
  let ?st0 = "initial_state new_cache :: (string, nat) loop_state"
  have l: "load_cache fresh_world = (Inr new_cache :: error + (string, nat) cache)"
    by (simp add: load_cache_def fresh_world_def)
  have d: "\<forall>k. open_wb env_found k" by (simp add: env_found_def)
  have dt: "\<forall>k. open_wb env_timeout k" by (simp add: env_timeout_def)
  have a: "accepted (PyList ?addrs) = Some ?addrs" by simp
  have u: "geocode_upto env_found ?addrs 0 fresh_world = (Inr ?st0, fresh_world)"
    using l by (simp add: geocode_upto_0)
  have ut: "geocode_upto env_timeout ?addrs 0 fresh_world = (Inr ?st0, fresh_world)"
    using l by (simp add: geocode_upto_0)
  have key: "requests (cache ?st0) ''geocoding'' \<noteq> None"
    by (simp add: initial_state_def new_cache_def)
  have m: "geocoding (cache ?st0) (?addrs ! 0) = None"
    by (simp add: initial_state_def new_cache_def)
  have r: "gmaps_geocode env_found (api_calls fresh_world) ''Berlin'' = Returned [''Berlin'']"
    by (simp add: env_found_def)
  have rt: "gmaps_geocode env_timeout (api_calls fresh_world) ''Berlin'' = Raised Timeout"
    by (simp add: env_timeout_def)
  have c: "api_calls fresh_world = []" by (simp add: fresh_world_def)
  have jk: "(0::nat) < 1" and k: "1 < length ?addrs" and same: "?addrs ! 1 = ?addrs ! 0"
    by simp_all
  obtain out w' where g: "geocode env_found (PyList ?addrs) fresh_world = (Inr out, w')"
    using geocode_returns [OF a l d] by auto
  then obtain stn where n: "geocode_upto env_found ?addrs (length ?addrs) fresh_world = (Inr stn, w')"
    using geocode_Inr [OF a g] by auto
  have p: "geocoding (cache ?st0) (?addrs ! 0) \<noteq> None
         \<or> (requests (cache ?st0) ''geocoding'' \<noteq> None
              \<and> (\<exists>r. r \<noteq> [] \<and> gmaps_geocode env_found (api_calls fresh_world) (?addrs ! 0) = Returned r))"
    using key r by simp
  note T = duplicate_address_is_cache_hit [OF jk k same u, THEN conjunct1, THEN mp, OF p,
      THEN conjunct1, rule_format, of "length ?addrs" stn w']
  have "\<exists>new. api_calls w' = api_calls fresh_world @ new
          \<and> count_list new (?addrs ! 0) = (if geocoding (cache ?st0) (?addrs ! 0) = None then 1 else 0)"
    using T n by simp
  then have found: "count_list (api_calls w') ''Berlin'' = 1"
    unfolding c m by (auto simp del: count_list.simps)
  obtain stk wk where uk: "geocode_upto env_timeout ?addrs 1 fresh_world = (Inr stk, wk)"
    using geocode_upto_total [OF l dt, of 1 ?addrs] by auto
  have f: "geocoding (cache ?st0) (?addrs ! 0) = None
          \<and> requests (cache ?st0) ''geocoding'' \<noteq> None
          \<and> ((\<exists>x. gmaps_geocode env_timeout (api_calls fresh_world) (?addrs ! 0) = Raised x)
               \<or> gmaps_geocode env_timeout (api_calls fresh_world) (?addrs ! 0) = Returned [])"
    using m key rt by simp
  have nx: "\<forall>m. 0 < m \<and> m < (1::nat) \<longrightarrow> ?addrs ! m \<noteq> ?addrs ! 0" by auto
  note F = duplicate_address_is_cache_hit [OF jk k same ut, THEN conjunct2, THEN mp, OF f,
      THEN conjunct2, THEN mp, OF nx, rule_format, OF uk]
  have failed: "geocoding (cache stk) ''Berlin'' = None
         \<and> api_calls (snd (geocode_upto env_timeout ?addrs (Suc 1) fresh_world)) = api_calls wk @ [''Berlin'']"
    using F by simp
  show ?thesis
    apply (intro conjI)
         apply (rule u)
        apply (rule key)
       apply (rule r)
      apply (rule exI [where x = out], rule exI [where x = w'], rule conjI [OF g found])
     apply (rule rt)
    apply (rule exI [where x = stk], rule exI [where x = wk])
    apply (rule conjI [OF uk failed])
    done
qed

section \<open>What the cache holds\<close>

lemma justified_append:
  assumes "justified e calls a r"
  shows "justified e (calls @ new) a r"
proof -
  from assms obtain k where k: "k < length calls" "calls ! k = a"
    "gmaps_geocode e (take k calls) a = Returned r" and r: "r \<noteq> []"
    by (auto simp add: justified_def)
  have "k < length (calls @ new)" "(calls @ new) ! k = a"
    "gmaps_geocode e (take k (calls @ new)) a = Returned r"
    using k by (simp_all add: nth_append)
  then show ?thesis using r unfolding justified_def by blast
qed

lemma justified_new:
  "gmaps_geocode e calls a = Returned r \<Longrightarrow> r \<noteq> [] \<Longrightarrow> justified e (calls @ [a]) a r"
  unfolding justified_def
  by (auto intro!: exI [where x = "length calls"])

lemma cache_ok_append: "cache_ok e calls c \<Longrightarrow> cache_ok e (calls @ new) c"
  unfolding cache_ok_def by (auto intro: justified_append)

lemma checkpoint_store_ok:
  assumes "store_ok e w" and "cache_ok e (api_calls w) (cache st)"
    and "checkpoint e n i st w = (res, w')"
  shows "store_ok e w' \<and> (\<forall>s. res = Inr s \<longrightarrow> cache_ok e (api_calls w') (cache s))"
  using assms
  by (auto simp add: checkpoint_unfold store_ok_def load_cache_def split: if_splits)

lemma store_ok_calls:
  assumes "store_ok e w"
  shows "store_ok e (w\<lparr>clock_reads := k, api_calls := api_calls w @ new\<rparr>)"
  using assms by (auto simp add: store_ok_def load_cache_def intro: cache_ok_append)

lemma geocode_step_store_ok:
  assumes ok: "store_ok e w" and mem: "cache_ok e (api_calls w) (cache st)"
    and s: "geocode_step e n i a st w = (res, w')"
  shows "store_ok e w' \<and> (\<forall>s. res = Inr s \<longrightarrow> cache_ok e (api_calls w') (cache s))"
proof (cases "geocoding (cache st) a")
  case (Some r)
  let ?st = "st\<lparr>geocoded_addresses := (geocoded_addresses st)(a \<mapsto> Some r)\<rparr>"
  have c: "checkpoint e n i ?st w = (res, w')"
    using s Some by (simp add: geocode_step_unfold)
  have "cache_ok e (api_calls w) (cache ?st)" using mem by simp
  from checkpoint_store_ok [OF ok this c] show ?thesis .
next
  case None
  obtain stamps where key: "requests (cache st) ''geocoding'' = Some stamps"
    using mem by (auto simp add: cache_ok_def)
  let ?w = "w\<lparr>clock_reads := Suc (clock_reads w), api_calls := api_calls w @ [a]\<rparr>"
  let ?c = "(cache st)\<lparr>requests := (requests (cache st))
                 (''geocoding'' \<mapsto> stamps @ [datetime_now e (clock_reads w)])\<rparr>"
  have okw: "store_ok e ?w" using store_ok_calls [OF ok] .
  have memc: "cache_ok e (api_calls ?w) ?c"
    using cache_ok_append [OF mem, of "[a]"] by (simp add: cache_ok_def)
  show ?thesis
  proof (cases "gmaps_geocode e (api_calls w) a")
    case (Raised x)
    let ?st = "st\<lparr>cache := ?c, fetched_res_since_last_cachewrite := True,
                   geocoded_addresses := (geocoded_addresses st)(a \<mapsto> None)\<rparr>"
    have c: "checkpoint e n i ?st ?w = (res, w')"
      using s None key Raised by (simp add: geocode_step_unfold)
    have "cache_ok e (api_calls ?w) (cache ?st)" using memc by simp
    from checkpoint_store_ok [OF okw this c] show ?thesis .
  next
    case (Returned r)
    let ?c2 = "?c\<lparr>geocoding := (if r = [] then geocoding (cache st)
                                  else (geocoding (cache st))(a \<mapsto> r))\<rparr>"
    let ?st = "st\<lparr>cache := ?c2, fetched_res_since_last_cachewrite := True,
                   geocoded_addresses := (geocoded_addresses st)(a \<mapsto> Some r)\<rparr>"
    have c: "checkpoint e n i ?st ?w = (res, w')"
      using s None key Returned by (simp add: geocode_step_unfold)
    have "justified e (api_calls w @ [a]) a r" if "r \<noteq> []"
      using justified_new [OF Returned that] .
    then have "cache_ok e (api_calls ?w) ?c2"
      using memc by (auto simp add: cache_ok_def)
    then have "cache_ok e (api_calls ?w) (cache ?st)" by simp
    from checkpoint_store_ok [OF okw this c] show ?thesis .
  qed
qed

lemma geocode_upto_store_ok:
  assumes ok: "store_ok e w" and j: "j \<le> length addrs"
  shows "store_ok e (snd (geocode_upto e addrs j w))
         \<and> (\<forall>s. fst (geocode_upto e addrs j w) = Inr s
               \<longrightarrow> cache_ok e (api_calls (snd (geocode_upto e addrs j w))) (cache s))"
proof -
  let ?R = "\<lambda>j (p :: (error + ('a, 'b) loop_state) \<times> ('a, 'b) world).
              store_ok e (snd p) \<and> (\<forall>s. fst p = Inr s \<longrightarrow> cache_ok e (api_calls (snd p)) (cache s))"
  have "?R j (geocode_upto e addrs j w)"
  proof (rule geocode_upto_induct [where ?m0.0 = 0 and R = ?R])
    show "?R 0 (geocode_upto e addrs 0 w)"
      using ok by (auto simp add: store_ok_def geocode_upto_0 initial_state_def)
  next
    fix i st w1
    assume "?R i (Inr st, w1)"
    then show "?R (Suc i) (geocode_step e (length addrs) i (addrs ! i) st w1)"
      using geocode_step_store_ok [of e w1 st "length addrs" i "addrs ! i"]
      by (metis fst_conv snd_conv prod.collapse)
  qed (use j in auto)
  then show ?thesis .
qed

lemma geocode_store_ok:
  assumes "store_ok e w"
  shows "store_ok e (snd (geocode e addresses w))"
proof (cases "accepted addresses")
  case None
  then show ?thesis using assms by (simp add: geocode_def)
next
  case (Some addrs)
  have "snd (geocode e addresses w) = snd (geocode_upto e addrs (length addrs) w)"
    using Some by (simp add: geocode_def split: prod.splits sum.splits)
  then show ?thesis using geocode_upto_store_ok [OF assms, of "length addrs" addrs] by simp
qed

lemma geocode_all_store_ok:
  "store_ok e w \<Longrightarrow> store_ok e (geocode_all e batches w)"
  by (induction batches arbitrary: w) (auto intro: geocode_store_ok)

lemma store_ok_no_file:
  "cachefile w = None \<Longrightarrow> store_ok e w"
  by (simp add: store_ok_def load_cache_def cache_ok_def new_cache_def)


lemma geocode_step_retry:
  assumes a: "geocoding (cache s1) a = None" and key: "requests (cache s1) ''geocoding'' \<noteq> None"
    and never: "\<forall>h r. gmaps_geocode e h a = Returned r \<longrightarrow> r = []"
    and s: "geocode_step e n i b s1 w1 = (Inr s2, w2)"
  shows "geocoding (cache s2) a = None \<and> requests (cache s2) ''geocoding'' \<noteq> None
         \<and> (\<exists>new. api_calls w2 = api_calls w1 @ new
               \<and> count_list new a = (if b = a then 1 else 0))"
proof (cases "b = a")
  case True
  have "gmaps_geocode e (api_calls w1) a = Returned r \<Longrightarrow> r = []" for r
    using never by blast
  then show ?thesis
    using a key s True
    by (auto simp add: geocode_step_unfold checkpoint_unfold
        split: option.splits outcome.splits if_splits)
next
  case False
  then show ?thesis
    using a key s
    by (auto simp add: geocode_step_unfold checkpoint_unfold
        split: option.splits outcome.splits if_splits)
qed

lemma geocode_upto_retry:
  assumes l: "load_cache w = Inr c" and a: "geocoding c a = None"
    and key: "requests c ''geocoding'' \<noteq> None"
    and never: "\<forall>h r. gmaps_geocode e h a = Returned r \<longrightarrow> r = []"
    and j: "j \<le> length addrs" and up: "geocode_upto e addrs j w = (Inr st, wj)"
  shows "geocoding (cache st) a = None \<and> requests (cache st) ''geocoding'' \<noteq> None
         \<and> (\<exists>new. api_calls wj = api_calls w @ new
               \<and> count_list new a = count_list (take j addrs) a)"
proof -
  have z: "geocode_upto e addrs 0 w = (Inr (initial_state c), w)"
    using l by (simp add: geocode_upto_0)
  show ?thesis
  proof (rule geocode_upto_states
      [where P = "\<lambda>j s v. geocoding (cache s) a = None \<and> requests (cache s) ''geocoding'' \<noteq> None
                   \<and> (\<exists>new. api_calls v = api_calls w @ new
                         \<and> count_list new a = count_list (take j addrs) a)",
        OF _ j z up])
    show "geocoding (cache (initial_state c)) a = None
          \<and> requests (cache (initial_state c)) ''geocoding'' \<noteq> None
          \<and> (\<exists>new. api_calls w = api_calls w @ new
                \<and> count_list new a = count_list (take 0 addrs) a)"
      using a key by (simp add: initial_state_def)
  next
    fix i s1 w1 s2 w2
    assume i: "i < j"
      and p: "geocoding (cache s1) a = None \<and> requests (cache s1) ''geocoding'' \<noteq> None
          \<and> (\<exists>new. api_calls w1 = api_calls w @ new
                \<and> count_list new a = count_list (take i addrs) a)"
      and s: "geocode_step e (length addrs) i (addrs ! i) s1 w1 = (Inr s2, w2)"
    from p obtain new1 where n1: "api_calls w1 = api_calls w @ new1"
      "count_list new1 a = count_list (take i addrs) a"
      by blast
    from geocode_step_retry [OF _ _ never s] p obtain new2
      where n2: "geocoding (cache s2) a = None" "requests (cache s2) ''geocoding'' \<noteq> None"
        "api_calls w2 = api_calls w1 @ new2"
        "count_list new2 a = (if addrs ! i = a then 1 else 0)"
      by (elim conjE exE) auto
    have t: "take (Suc i) addrs = take i addrs @ [addrs ! i]"
      using i j by (simp add: take_Suc_conv_app_nth)
    have "api_calls w2 = api_calls w @ (new1 @ new2)
          \<and> count_list (new1 @ new2) a = count_list (take (Suc i) addrs) a"
      using n1 n2(3,4) unfolding t by simp
    then show "geocoding (cache s2) a = None \<and> requests (cache s2) ''geocoding'' \<noteq> None
          \<and> (\<exists>new. api_calls w2 = api_calls w @ new
                \<and> count_list new a = count_list (take (Suc i) addrs) a)"
      using n2(1,2) by blast
  qed simp
qed

text \<open>
  Claim C2. Start without a cache file and call \<open>geocode\<close> any number of times, with any
  arguments and whatever the provider and the disk do. Then the cache file can be loaded,
  and every address in its result dictionary maps to a non-empty list that the provider
  returned for that very address at one of the calls made so far. Hence an address for
  which the provider never returns a non-empty result (it raises or returns the empty
  list) is not in the cache, and the next \<open>geocode\<close> call, when the file can be written,
  sends one provider call for each occurrence of the address in its batch.
\<close>

theorem results_only_from_successful_lookups:
  assumes start: "cachefile w0 = None" and run: "w = geocode_all e batches w0"
  shows "\<exists>c. load_cache w = Inr c
           \<and> (\<forall>a r. geocoding c a = Some r \<longrightarrow>
                 r \<noteq> [] \<and> (\<exists>k<length (api_calls w). api_calls w ! k = a
                               \<and> gmaps_geocode e (take k (api_calls w)) a = Returned r))
           \<and> (\<forall>a addresses addrs.
                 (\<forall>h r. gmaps_geocode e h a = Returned r \<longrightarrow> r = [])
                 \<and> (\<forall>k. open_wb e k) \<and> accepted addresses = Some addrs \<longrightarrow>
                 geocoding c a = None
                 \<and> (\<exists>new. api_calls (snd (geocode e addresses w)) = api_calls w @ new
                       \<and> count_list new a = count_list addrs a))"
proof -
  have "store_ok e w"
    unfolding run using store_ok_no_file [OF start] by (rule geocode_all_store_ok)
  then obtain c where l: "load_cache w = Inr c" and ok: "cache_ok e (api_calls w) c"
    by (auto simp add: store_ok_def)
  have entries: "r \<noteq> [] \<and> (\<exists>k<length (api_calls w). api_calls w ! k = a
                               \<and> gmaps_geocode e (take k (api_calls w)) a = Returned r)"
    if "geocoding c a = Some r" for a r
    using ok that by (simp add: cache_ok_def justified_def)
  have retry: "geocoding c a = None
                 \<and> (\<exists>new. api_calls (snd (geocode e addresses w)) = api_calls w @ new
                       \<and> count_list new a = count_list addrs a)"
    if never: "\<forall>h r. gmaps_geocode e h a = Returned r \<longrightarrow> r = []"
      and disk: "\<forall>k. open_wb e k" and acc: "accepted addresses = Some addrs"
    for a addresses addrs
  proof -
    have absent: "geocoding c a = None"
    proof (cases "geocoding c a")
      case (Some r)
      then show ?thesis using entries [OF Some] never by blast
    qed simp
    have key: "requests c ''geocoding'' \<noteq> None" using ok by (simp add: cache_ok_def)
    obtain st w' where u: "geocode_upto e addrs (length addrs) w = (Inr st, w')"
      using geocode_upto_total [OF l disk, of "length addrs" addrs] by auto
    then have "snd (geocode e addresses w) = w'"
      using acc by (simp add: geocode_def)
    then show ?thesis
      using geocode_upto_retry [OF l absent key never _ u] absent by simp
  qed
  show ?thesis using l entries retry by blast
qed

theorem results_only_from_successful_lookups_witness:
  "cachefile fresh_world = None
   \<and> (\<exists>c. load_cache (geocode_all env_found [PyList [''Berlin'']] fresh_world) = Inr c
         \<and> geocoding c ''Berlin'' = Some [''Berlin'']
         \<and> (\<exists>k<length (api_calls (geocode_all env_found [PyList [''Berlin'']] fresh_world)).
               api_calls (geocode_all env_found [PyList [''Berlin'']] fresh_world) ! k = ''Berlin''
               \<and> gmaps_geocode env_found
                    (take k (api_calls (geocode_all env_found [PyList [''Berlin'']] fresh_world)))
                    ''Berlin'' = Returned [''Berlin'']))
   \<and> (\<exists>c. load_cache (geocode_all env_timeout [PyList [''Berlin''], PyList [''Berlin'', ''Paris'']] fresh_world) = Inr c
         \<and> geocoding c ''Berlin'' = None)
   \<and> (\<exists>new. api_calls (snd (geocode env_timeout (PyList [''Berlin'', ''Paris'', ''Berlin''])
                 (geocode_all env_timeout [PyList [''Berlin''], PyList [''Berlin'', ''Paris'']] fresh_world)))
          = api_calls (geocode_all env_timeout [PyList [''Berlin''], PyList [''Berlin'', ''Paris'']] fresh_world) @ new
        \<and> count_list new ''Berlin'' = 2)"
proof -
  let ?w = "geocode_all env_timeout [PyList [''Berlin''], PyList [''Berlin'', ''Paris'']] fresh_world"
  let ?v = "geocode_all env_found [PyList [''Berlin'']] fresh_world"
  have s: "cachefile fresh_world = None" by (simp add: fresh_world_def)
  have n: "\<forall>h r. gmaps_geocode env_timeout h ''Berlin'' = Returned r \<longrightarrow> r = []"
    by (simp add: env_timeout_def)
  have d: "\<forall>k. open_wb env_timeout k" by (simp add: env_timeout_def)
  have a: "accepted (PyList [''Berlin'', ''Paris'', ''Berlin'']) = Some [''Berlin'', ''Paris'', ''Berlin'']"
    by simp
  have c: "count_list [''Berlin'', ''Paris'', ''Berlin''] ''Berlin'' = 2" by simp
  from results_only_from_successful_lookups [OF s refl, of env_timeout "[PyList [''Berlin''], PyList [''Berlin'', ''Paris'']]"]
  obtain c where l: "load_cache ?w = Inr c"
    and r: "\<And>a addresses addrs. (\<forall>h r. gmaps_geocode env_timeout h a = Returned r \<longrightarrow> r = [])
                 \<and> (\<forall>k. open_wb env_timeout k) \<and> accepted addresses = Some addrs \<Longrightarrow>
                 geocoding c a = None
                 \<and> (\<exists>new. api_calls (snd (geocode env_timeout addresses ?w)) = api_calls ?w @ new
                       \<and> count_list new a = count_list addrs a)"
    by blast
  from r [of "''Berlin''" "PyList [''Berlin'', ''Paris'', ''Berlin'']" "[''Berlin'', ''Paris'', ''Berlin'']"] n d a c
  have second: "geocoding c ''Berlin'' = None
        \<and> (\<exists>new. api_calls (snd (geocode env_timeout (PyList [''Berlin'', ''Paris'', ''Berlin'']) ?w))
                    = api_calls ?w @ new \<and> count_list new ''Berlin'' = 2)"
    by (simp del: count_list.simps)
  have ev: "cachefile ?v = Some (Pickled (new_cache\<lparr>requests := [''geocoding'' \<mapsto> [0]],
                                                   geocoding := [''Berlin'' \<mapsto> [''Berlin'']]\<rparr>))"
    by (simp add: geocode_def geocode_upto_def load_cache_def fresh_world_def env_found_def
        initial_state_def new_cache_def geocode_step_unfold checkpoint_unfold)
  from results_only_from_successful_lookups [OF s refl, of env_found "[PyList [''Berlin'']]"]
  obtain c' where l': "load_cache ?v = Inr c'"
    and e: "\<And>a r. geocoding c' a = Some r \<Longrightarrow>
                 r \<noteq> [] \<and> (\<exists>k<length (api_calls ?v). api_calls ?v ! k = a
                               \<and> gmaps_geocode env_found (take k (api_calls ?v)) a = Returned r)"
    by blast
  have g: "geocoding c' ''Berlin'' = Some [''Berlin'']"
    using l' ev by (auto simp add: load_cache_def)
  have first: "\<exists>k<length (api_calls ?v). api_calls ?v ! k = ''Berlin''
                 \<and> gmaps_geocode env_found (take k (api_calls ?v)) ''Berlin'' = Returned [''Berlin'']"
    using e [OF g] by blast
  show ?thesis using s l second l' g first by blast
qed

section \<open>A deleted request log\<close>

text \<open>
  \<open>remove_item_from_cache('geocoding', section='_requests')\<close> deletes the request log
  itself. From then on a cache miss raises \<open>KeyError\<close> inside the \<open>try\<close> before the provider
  is called: the address gets the output \<open>None\<close>, no lookup is sent, and the cache is
  still written at the checkpoint.
\<close>

lemma deleted_request_log_skips_provider:
  "geocode env_found (PyList [''Berlin''])
     (snd (remove_item_from_cache env_found ''geocoding'' ''_requests'' fresh_world))
   = (Inr [''Berlin'' \<mapsto> None],
      fresh_world\<lparr>cachefile := Some (Pickled (new_cache\<lparr>requests := Map.empty\<rparr>)),
                  write_attempts := 2,
                  writes := [new_cache\<lparr>requests := Map.empty\<rparr>, new_cache\<lparr>requests := Map.empty\<rparr>]\<rparr>)"
  by (simp add: geocode_def geocode_upto_def remove_item_from_cache_def write_cache_def
      load_cache_def fresh_world_def env_found_def initial_state_def new_cache_def
      geocode_step_unfold checkpoint_unfold)

end
